theory Spec2Isabelle
  imports Main "HOL-Library.Sublist" "HOL-Library.Code_Target_Nat"
begin

section \<open>Package reflect: kinds and values\<close>

text \<open>
  The constants of \<^verbatim>\<open>reflect.Kind\<close> in their declaration order. \<^verbatim>\<open>setValue\<close>
  compares kinds numerically (\<^verbatim>\<open>k >= reflect.Int && k <= reflect.Int64\<close>), so the
  position of every constant matters (\<open>Kind_Int\<close> is \<^verbatim>\<open>reflect.Int\<close>, and so on); \<open>kind_num\<close> is the \<^verbatim>\<open>iota\<close> value.
\<close>

datatype kind =
    Kind_Invalid | Kind_Bool
  | Kind_Int | Kind_Int8 | Kind_Int16 | Kind_Int32 | Kind_Int64
  | Kind_Uint | Kind_Uint8 | Kind_Uint16 | Kind_Uint32 | Kind_Uint64 | Kind_Uintptr
  | Kind_Float32 | Kind_Float64 | Kind_Complex64 | Kind_Complex128
  | Kind_Array | Kind_Chan | Kind_Func | Kind_Interface | Kind_Map | Kind_Ptr | Kind_Slice | Kind_String | Kind_Struct | Kind_UnsafePointer

fun kind_num :: "kind \<Rightarrow> nat" where
  "kind_num Kind_Invalid = 0"
| "kind_num Kind_Bool = 1"
| "kind_num Kind_Int = 2"
| "kind_num Kind_Int8 = 3"
| "kind_num Kind_Int16 = 4"
| "kind_num Kind_Int32 = 5"
| "kind_num Kind_Int64 = 6"
| "kind_num Kind_Uint = 7"
| "kind_num Kind_Uint8 = 8"
| "kind_num Kind_Uint16 = 9"
| "kind_num Kind_Uint32 = 10"
| "kind_num Kind_Uint64 = 11"
| "kind_num Kind_Uintptr = 12"
| "kind_num Kind_Float32 = 13"
| "kind_num Kind_Float64 = 14"
| "kind_num Kind_Complex64 = 15"
| "kind_num Kind_Complex128 = 16"
| "kind_num Kind_Array = 17"
| "kind_num Kind_Chan = 18"
| "kind_num Kind_Func = 19"
| "kind_num Kind_Interface = 20"
| "kind_num Kind_Map = 21"
| "kind_num Kind_Ptr = 22"
| "kind_num Kind_Slice = 23"
| "kind_num Kind_String = 24"
| "kind_num Kind_Struct = 25"
| "kind_num Kind_UnsafePointer = 26"

text \<open>The Go types behind the numeric kinds, and the kinds the package never looks into.\<close>

datatype int_type = T_int | T_int8 | T_int16 | T_int32 | T_int64
datatype uint_type = T_uint | T_uint8 | T_uint16 | T_uint32 | T_uint64 | T_uintptr
datatype float_type = T_float32 | T_float64
datatype opaque_type =
  T_complex64 | T_complex128 | T_array | T_chan | T_func | T_interface | T_map | T_slice
  | T_unsafe_pointer

text \<open>
  The part of \<^verbatim>\<open>reflect.StructField\<close> that \<^verbatim>\<open>parseStruct\<close> reads: \<open>PkgPath\<close> is
  empty exactly for an exported field; \<open>Tag\<close> is the struct tag in its conventional
  \<^verbatim>\<open>key:"value"\<close> form, already split into pairs.
\<close>

record StructField =
  GoName :: string
  PkgPath :: string
  Tag :: "(string \<times> string) list"

text \<open>
  A Go value as reflection sees it. Integers are kept as mathematical numbers inside the
  range of their type; \<open>'f\<close> is the type of 64-bit floating-point numbers, which this
  development does not interpret. A struct is the list of its fields in declaration order.
\<close>

datatype 'f rvalue =
    VBool bool
  | VInt int_type int
  | VUint uint_type nat
  | VFloat float_type 'f
  | VString string
  | VStruct "(StructField \<times> 'f rvalue) list"
  | VPtr "'f rvalue option"
  | VOpaque opaque_type

fun Kind :: "'f rvalue \<Rightarrow> kind" where
  "Kind (VBool _) = Kind_Bool"
| "Kind (VInt T_int _) = Kind_Int"
| "Kind (VInt T_int8 _) = Kind_Int8"
| "Kind (VInt T_int16 _) = Kind_Int16"
| "Kind (VInt T_int32 _) = Kind_Int32"
| "Kind (VInt T_int64 _) = Kind_Int64"
| "Kind (VUint T_uint _) = Kind_Uint"
| "Kind (VUint T_uint8 _) = Kind_Uint8"
| "Kind (VUint T_uint16 _) = Kind_Uint16"
| "Kind (VUint T_uint32 _) = Kind_Uint32"
| "Kind (VUint T_uint64 _) = Kind_Uint64"
| "Kind (VUint T_uintptr _) = Kind_Uintptr"
| "Kind (VFloat T_float32 _) = Kind_Float32"
| "Kind (VFloat T_float64 _) = Kind_Float64"
| "Kind (VString _) = Kind_String"
| "Kind (VStruct _) = Kind_Struct"
| "Kind (VPtr _) = Kind_Ptr"
| "Kind (VOpaque T_complex64) = Kind_Complex64"
| "Kind (VOpaque T_complex128) = Kind_Complex128"
| "Kind (VOpaque T_array) = Kind_Array"
| "Kind (VOpaque T_chan) = Kind_Chan"
| "Kind (VOpaque T_func) = Kind_Func"
| "Kind (VOpaque T_interface) = Kind_Interface"
| "Kind (VOpaque T_map) = Kind_Map"
| "Kind (VOpaque T_slice) = Kind_Slice"
| "Kind (VOpaque T_unsafe_pointer) = Kind_UnsafePointer"

section \<open>Errors\<close>

datatype num_err = ErrSyntax | ErrRange

datatype errno = ENOENT | EACCES | EIO | EISDIR

text \<open>
  The errors the package returns: \<open>TargetError\<close> is
  \<^verbatim>\<open>errors.New("target must be a pointer to struct")\<close>; \<open>SeparatorError line\<close> is the
  error of \<^verbatim>\<open>readSource\<close> for a line without \<^verbatim>\<open>=\<close>; \<open>NumError\<close> is
  \<^verbatim>\<open>strconv.NumError\<close> with its function, input and reason; \<open>NotSupported k\<close> is the
  error of \<^verbatim>\<open>setValue\<close> for a field of kind \<open>k\<close>; \<open>OSError\<close> is an error of
  \<^verbatim>\<open>os.Open\<close> (with the path) or of \<^verbatim>\<open>os.Getwd\<close>. \<open>ReflectPanic\<close> stands for a
  panic of package reflect, which the theorems below show is never reached through the
  handles that \<^verbatim>\<open>parseStruct\<close> returns.
\<close>

datatype error =
    TargetError
  | SeparatorError string
  | NumError string string num_err
  | NotSupported kind
  | OSError string errno
  | ReflectPanic

text \<open>
  What the program depends on without containing it: the width of \<^verbatim>\<open>int\<close>,
  \<^verbatim>\<open>uint\<close> and \<^verbatim>\<open>uintptr\<close> (32 or 64), \<^verbatim>\<open>strconv.ParseFloat(s, 64)\<close>
  (with the reason of its error, as for the other parsers), the conversion \<^verbatim>\<open>float32(x)\<close> that
  \<^verbatim>\<open>reflect.Value.SetFloat\<close> applies to a 32-bit field, and \<^verbatim>\<open>path.Join\<close>.
\<close>

record 'f platform =
  IntSize :: nat
  ParseFloat64 :: "string \<Rightarrow> num_err + 'f"
  ToFloat32 :: "'f \<Rightarrow> 'f"
  PathJoin :: "string \<Rightarrow> string \<Rightarrow> string"

section \<open>Package strconv\<close>

text \<open>
  The parsers return a \<^verbatim>\<open>*strconv.NumError\<close>; the model returns its reason, and
  \<^verbatim>\<open>setValue\<close> below adds the function and the input. \<^verbatim>\<open>strconv.ParseBool\<close>
  accepts exactly twelve spellings.
\<close>

definition ParseBool :: "string \<Rightarrow> num_err + bool" where
  "ParseBool str =
     (if str \<in> set [''1'', ''t'', ''T'', ''true'', ''TRUE'', ''True''] then Inr True
      else if str \<in> set [''0'', ''f'', ''F'', ''false'', ''FALSE'', ''False''] then Inr False
      else Inl ErrSyntax)"

text \<open>
  \<^verbatim>\<open>strconv.ParseUint(s, 10, 64)\<close>. The loop reads one byte at a time: a byte that is
  not a decimal digit is a syntax error (a letter is a digit of value at least 10, which
  base 10 rejects); then the two overflow checks of the library, on a 64-bit accumulator.
\<close>

definition is_digit :: "char \<Rightarrow> bool" where
  "is_digit c = ((of_char CHR ''0'' :: nat) \<le> of_char c \<and> (of_char c :: nat) \<le> of_char CHR ''9'')"

definition digit_val :: "char \<Rightarrow> nat" where
  "digit_val c = of_char c - of_char CHR ''0''"

definition maxUint64 :: nat where
  "maxUint64 = 2 ^ 64 - 1"

fun ParseUint_loop :: "nat \<Rightarrow> string \<Rightarrow> num_err + nat" where
  "ParseUint_loop n [] = Inr n"
| "ParseUint_loop n (c # cs) =
     (if \<not> is_digit c then Inl ErrSyntax
      else if n \<ge> maxUint64 div 10 + 1 then Inl ErrRange
      else
        let n10 = n * 10;
            n1 = (n10 + digit_val c) mod 2 ^ 64
        in if n1 < n10 \<or> n1 > maxUint64 then Inl ErrRange else ParseUint_loop n1 cs)"

definition ParseUint :: "string \<Rightarrow> num_err + nat" where
  "ParseUint s = (if s = [] then Inl ErrSyntax else ParseUint_loop 0 s)"

text \<open>
  \<^verbatim>\<open>strconv.ParseInt(s, 10, 64)\<close>: an optional sign, then \<open>ParseUint\<close>, then the
  range check against \<open>2 ^ 63\<close>. A range error of \<open>ParseUint\<close> yields the largest
  unsigned value and so fails the range check here as well.
\<close>

definition ParseInt :: "string \<Rightarrow> num_err + int" where
  "ParseInt s =
     (if s = [] then Inl ErrSyntax
      else
        let neg = (hd s = CHR ''-'');
            s1 = (if hd s = CHR ''+'' \<or> hd s = CHR ''-'' then tl s else s)
        in case ParseUint s1 of
             Inl ErrSyntax \<Rightarrow> Inl ErrSyntax
           | Inl ErrRange \<Rightarrow> Inl ErrRange
           | Inr un \<Rightarrow>
               let cutoff = (2::nat) ^ 63 in
               if \<not> neg \<and> un \<ge> cutoff then Inl ErrRange
               else if neg \<and> un > cutoff then Inl ErrRange
               else Inr (if neg then - int un else int un))"

section \<open>Setters of reflect.Value\<close>

text \<open>
  \<^verbatim>\<open>SetInt\<close>, \<^verbatim>\<open>SetUint\<close> and \<^verbatim>\<open>SetFloat\<close> store a 64-bit argument through a Go
  conversion to the field's type (\<^verbatim>\<open>int8(x)\<close>, \<^verbatim>\<open>uint16(x)\<close>, \<^verbatim>\<open>float32(x)\<close>):
  an integer keeps its low bits. A setter called on a value of another kind panics.
\<close>

fun int_bits :: "'f platform \<Rightarrow> int_type \<Rightarrow> nat" where
  "int_bits P T_int = IntSize P"
| "int_bits P T_int8 = 8"
| "int_bits P T_int16 = 16"
| "int_bits P T_int32 = 32"
| "int_bits P T_int64 = 64"

fun uint_bits :: "'f platform \<Rightarrow> uint_type \<Rightarrow> nat" where
  "uint_bits P T_uint = IntSize P"
| "uint_bits P T_uint8 = 8"
| "uint_bits P T_uint16 = 16"
| "uint_bits P T_uint32 = 32"
| "uint_bits P T_uint64 = 64"
| "uint_bits P T_uintptr = IntSize P"

definition wrap_signed :: "nat \<Rightarrow> int \<Rightarrow> int" where
  "wrap_signed w x = (x + 2 ^ (w - 1)) mod 2 ^ w - 2 ^ (w - 1)"

definition wrap_unsigned :: "nat \<Rightarrow> nat \<Rightarrow> nat" where
  "wrap_unsigned w x = x mod 2 ^ w"

fun SetBool :: "'f rvalue \<Rightarrow> bool \<Rightarrow> error + 'f rvalue" where
  "SetBool (VBool _) b = Inr (VBool b)"
| "SetBool _ b = Inl ReflectPanic"

fun SetInt :: "'f platform \<Rightarrow> 'f rvalue \<Rightarrow> int \<Rightarrow> error + 'f rvalue" where
  "SetInt P (VInt t _) x = Inr (VInt t (wrap_signed (int_bits P t) x))"
| "SetInt P _ x = Inl ReflectPanic"

fun SetUint :: "'f platform \<Rightarrow> 'f rvalue \<Rightarrow> nat \<Rightarrow> error + 'f rvalue" where
  "SetUint P (VUint t _) x = Inr (VUint t (wrap_unsigned (uint_bits P t) x))"
| "SetUint P _ x = Inl ReflectPanic"

fun SetFloat :: "'f platform \<Rightarrow> 'f rvalue \<Rightarrow> 'f \<Rightarrow> error + 'f rvalue" where
  "SetFloat P (VFloat T_float32 _) x = Inr (VFloat T_float32 (ToFloat32 P x))"
| "SetFloat P (VFloat T_float64 _) x = Inr (VFloat T_float64 x)"
| "SetFloat P _ x = Inl ReflectPanic"

fun SetString :: "'f rvalue \<Rightarrow> string \<Rightarrow> error + 'f rvalue" where
  "SetString (VString _) x = Inr (VString x)"
| "SetString _ x = Inl ReflectPanic"

section \<open>setValue\<close>

text \<open>
  The \<^verbatim>\<open>switch\<close> of \<^verbatim>\<open>setValue\<close>, case by case and in its order. The model returns
  the new contents of the field; the caller stores them where the handle points.
\<close>

definition setValue :: "'f platform \<Rightarrow> 'f rvalue \<Rightarrow> string \<Rightarrow> error + 'f rvalue" where
  "setValue P field val =
     (let k = Kind field in
      if k = Kind_Bool then
        (case ParseBool val of
           Inl err \<Rightarrow> Inl (NumError ''ParseBool'' val err)
         | Inr b \<Rightarrow> SetBool field b)
      else if kind_num k \<ge> kind_num Kind_Int \<and> kind_num k \<le> kind_num Kind_Int64 then
        (case ParseInt val of
           Inl err \<Rightarrow> Inl (NumError ''ParseInt'' val err)
         | Inr i \<Rightarrow> SetInt P field i)
      else if kind_num k \<ge> kind_num Kind_Uint \<and> kind_num k \<le> kind_num Kind_Uint64 then
        (case ParseUint val of
           Inl err \<Rightarrow> Inl (NumError ''ParseUint'' val err)
         | Inr u \<Rightarrow> SetUint P field u)
      else if kind_num k \<ge> kind_num Kind_Float32 \<and> kind_num k \<le> kind_num Kind_Float64 then
        (case ParseFloat64 P val of
           Inl err \<Rightarrow> Inl (NumError ''ParseFloat'' val err)
         | Inr f \<Rightarrow> SetFloat P field f)
      else if k = Kind_String then SetString field val
      else Inl (NotSupported k))"

section \<open>Package strings\<close>

text \<open>
  A Go string is a sequence of bytes. \<^verbatim>\<open>strings.TrimSpace\<close> removes leading and
  trailing Unicode white space as \<^verbatim>\<open>unicode.IsSpace\<close> defines it: six ASCII
  characters, U+0085 and U+00A0, and the code points with the property White_Space
  (U+1680, U+2000 to U+200A, U+2028, U+2029, U+202F, U+205F, U+3000). \<open>space_runes\<close>
  lists their UTF-8 encodings.
\<close>

definition space_runes :: "string list" where
  "space_runes =
     [[CHR 0x09], [CHR 0x0A], [CHR 0x0B], [CHR 0x0C], [CHR 0x0D], [CHR 0x20],
      [CHR 0xC2, CHR 0x85], [CHR 0xC2, CHR 0xA0],
      [CHR 0xE1, CHR 0x9A, CHR 0x80],
      [CHR 0xE2, CHR 0x80, CHR 0x80], [CHR 0xE2, CHR 0x80, CHR 0x81],
      [CHR 0xE2, CHR 0x80, CHR 0x82], [CHR 0xE2, CHR 0x80, CHR 0x83],
      [CHR 0xE2, CHR 0x80, CHR 0x84], [CHR 0xE2, CHR 0x80, CHR 0x85],
      [CHR 0xE2, CHR 0x80, CHR 0x86], [CHR 0xE2, CHR 0x80, CHR 0x87],
      [CHR 0xE2, CHR 0x80, CHR 0x88], [CHR 0xE2, CHR 0x80, CHR 0x89],
      [CHR 0xE2, CHR 0x80, CHR 0x8A],
      [CHR 0xE2, CHR 0x80, CHR 0xA8], [CHR 0xE2, CHR 0x80, CHR 0xA9],
      [CHR 0xE2, CHR 0x80, CHR 0xAF], [CHR 0xE2, CHR 0x81, CHR 0x9F],
      [CHR 0xE3, CHR 0x80, CHR 0x80]]"

definition leading_space :: "string \<Rightarrow> string option" where
  "leading_space s = find (\<lambda>w. prefix w s) space_runes"

definition trailing_space :: "string \<Rightarrow> string option" where
  "trailing_space s = find (\<lambda>w. suffix w s) space_runes"

lemma space_runes_nonempty: "w \<in> set space_runes \<Longrightarrow> w \<noteq> []"
  by (auto simp: space_runes_def)

lemma leading_space_Some:
  "leading_space s = Some w \<Longrightarrow> w \<in> set space_runes \<and> prefix w s"
  unfolding leading_space_def by (auto simp: find_Some_iff)

lemma trailing_space_Some:
  "trailing_space s = Some w \<Longrightarrow> w \<in> set space_runes \<and> suffix w s"
  unfolding trailing_space_def by (auto simp: find_Some_iff)

function TrimLeftSpace :: "string \<Rightarrow> string" where
  "TrimLeftSpace s =
     (case leading_space s of
        None \<Rightarrow> s
      | Some w \<Rightarrow> TrimLeftSpace (drop (length w) s))"
  by pat_completeness auto

termination TrimLeftSpace
proof (relation "measure length")
  show "wf (measure length)" by simp
next
  fix s w assume "leading_space s = Some w"
  then have "w \<noteq> []" "prefix w s"
    using leading_space_Some space_runes_nonempty by blast+
  then show "(drop (length w) s, s) \<in> measure length"
    by (cases s) (auto simp: prefix_def)
qed

function TrimRightSpace :: "string \<Rightarrow> string" where
  "TrimRightSpace s =
     (case trailing_space s of
        None \<Rightarrow> s
      | Some w \<Rightarrow> TrimRightSpace (take (length s - length w) s))"
  by pat_completeness auto

termination TrimRightSpace
proof (relation "measure length")
  show "wf (measure length)" by simp
next
  fix s w assume "trailing_space s = Some w"
  then have "w \<noteq> []" "suffix w s"
    using trailing_space_Some space_runes_nonempty by blast+
  then show "(take (length s - length w) s, s) \<in> measure length"
    by (cases s) (auto simp: suffix_def)
qed

declare TrimLeftSpace.simps [simp del] TrimRightSpace.simps [simp del]

definition TrimSpace :: "string \<Rightarrow> string" where
  "TrimSpace s = TrimRightSpace (TrimLeftSpace s)"

definition HasPrefix :: "string \<Rightarrow> string \<Rightarrow> bool" where
  "HasPrefix s pre = prefix pre s"

text \<open>
  \<^verbatim>\<open>strings.SplitN(s, sep, 2)\<close> for a separator of one byte: the text before the
  first separator and the text after it, or the whole string when it has none.
\<close>

definition SplitN2 :: "string \<Rightarrow> char \<Rightarrow> string list" where
  "SplitN2 s sep =
     (if sep \<in> set s
      then [takeWhile (\<lambda>c. c \<noteq> sep) s, tl (dropWhile (\<lambda>c. c \<noteq> sep) s)]
      else [s])"

section \<open>readSource\<close>

text \<open>
  An \<^verbatim>\<open>iterable\<close> is modelled by the list of strings that \<^verbatim>\<open>Next\<close> returns
  while \<^verbatim>\<open>Iter\<close> is true. \<open>readSource_loop\<close> is the \<^verbatim>\<open>for source.Iter()\<close> loop,
  with the map \<^verbatim>\<open>vars\<close> as its state.
\<close>

fun readSource_loop :: "(string \<rightharpoonup> string) \<Rightarrow> string list \<Rightarrow> error + (string \<rightharpoonup> string)" where
  "readSource_loop vars [] = Inr vars"
| "readSource_loop vars (raw # rest) =
     (let line = TrimSpace raw in
      if length line = 0 \<or> HasPrefix line ''#'' then readSource_loop vars rest
      else
        let tokens = SplitN2 line CHR ''=''
        in if length tokens \<noteq> 2 then Inl (SeparatorError line)
           else
             let key = TrimSpace (tokens ! 0);
                 val = TrimSpace (tokens ! 1)
             in readSource_loop (vars(key \<mapsto> val)) rest)"

definition readSource :: "string list \<Rightarrow> error + (string \<rightharpoonup> string)" where
  "readSource source = readSource_loop Map.empty source"

section \<open>Field handles\<close>

text \<open>
  \<^verbatim>\<open>structField.Value\<close> is a \<^verbatim>\<open>*reflect.Value\<close> addressing a field inside the
  caller's struct. The model addresses the field by the indices that lead to it from the
  struct the caller passed; \<open>deref\<close> reads through a handle and \<open>store\<close> writes.
\<close>

type_synonym handle = "nat list"

record structField =
  Name :: string
  Value :: handle

fun deref :: "'f rvalue \<Rightarrow> handle \<Rightarrow> 'f rvalue option" where
  "deref st [] = Some st"
| "deref st (i # p) =
     (case st of
        VStruct fs \<Rightarrow> if i < length fs then deref (snd (fs ! i)) p else None
      | _ \<Rightarrow> None)"

fun store :: "'f rvalue \<Rightarrow> handle \<Rightarrow> 'f rvalue \<Rightarrow> 'f rvalue" where
  "store st [] v = v"
| "store st (i # p) v =
     (case st of
        VStruct fs \<Rightarrow>
          if i < length fs
          then VStruct (fs[i := (fst (fs ! i), store (snd (fs ! i)) p v)])
          else st
      | _ \<Rightarrow> st)"

section \<open>parseStruct\<close>

text \<open>\<^verbatim>\<open>refField.Tag.Get(key)\<close>: the value of the first pair with that key, or the empty string.\<close>

definition Tag_Get :: "(string \<times> string) list \<Rightarrow> string \<Rightarrow> string" where
  "Tag_Get tag key = (case map_of tag key of None \<Rightarrow> [] | Some v \<Rightarrow> v)"

text \<open>
  The fields of a struct value, which the program reaches by \<^verbatim>\<open>NumField\<close> and
  \<^verbatim>\<open>Field(i)\<close>; a value of another kind has none.
\<close>

fun struct_fields :: "'f rvalue \<Rightarrow> (StructField \<times> 'f rvalue) list" where
  "struct_fields (VStruct fs) = fs"
| "struct_fields _ = []"

lemma struct_fields_size:
  "Kind v = Kind_Struct \<Longrightarrow> size_list (size_prod (\<lambda>_. 0) size) (struct_fields v) < size v"
  by (cases v) simp_all

text \<open>
  \<open>parseStruct_loop p i fs\<close> is the loop of \<^verbatim>\<open>parseStruct\<close> over the fields \<open>fs\<close> that
  remain from index \<open>i\<close> on, in the struct that the handle \<open>p\<close> addresses. Every
  iteration appends to \<^verbatim>\<open>fields\<close>, so the result is the concatenation in field order.
  The recursive call \<^verbatim>\<open>parseStruct(&refValue)\<close> starts the loop of the nested struct.
\<close>

function parseStruct_loop :: "handle \<Rightarrow> nat \<Rightarrow> (StructField \<times> 'f rvalue) list \<Rightarrow> structField list" where
  "parseStruct_loop p i [] = []"
| "parseStruct_loop p i ((refField, refValue) # rest) =
     (if PkgPath refField \<noteq> [] then parseStruct_loop p (Suc i) rest
      else if Kind refValue = Kind_Struct then
        parseStruct_loop (p @ [i]) 0 (struct_fields refValue) @ parseStruct_loop p (Suc i) rest
      else
        let envVarName = Tag_Get (Tag refField) ''env''
        in if envVarName = [] then parseStruct_loop p (Suc i) rest
           else \<lparr>Name = envVarName, Value = p @ [i]\<rparr> # parseStruct_loop p (Suc i) rest)"
  by pat_completeness auto

termination parseStruct_loop
  by (relation "measure (\<lambda>(p, i, fs). size_list (size_prod (\<lambda>_. 0) size) fs)")
     (auto dest: struct_fields_size)

text \<open>
  \<^verbatim>\<open>parseStruct\<close> itself. Both call sites pass a value of kind \<^verbatim>\<open>Struct\<close>
  (\<^verbatim>\<open>NumField\<close> panics on any other).
\<close>

definition parseStruct :: "handle \<Rightarrow> 'f rvalue \<Rightarrow> structField list" where
  "parseStruct p st = parseStruct_loop p 0 (struct_fields st)"

section \<open>loadFromSource\<close>

text \<open>
  The binding loop of \<^verbatim>\<open>loadFromSource\<close>: the struct is the state, and an error
  leaves it as the earlier iterations made it.
\<close>

fun loadFromSource_loop ::
  "'f platform \<Rightarrow> (string \<rightharpoonup> string) \<Rightarrow> structField list \<Rightarrow> 'f rvalue \<Rightarrow> error option \<times> 'f rvalue" where
  "loadFromSource_loop P vars [] st = (None, st)"
| "loadFromSource_loop P vars (field # rest) st =
     (case vars (Name field) of
        None \<Rightarrow> loadFromSource_loop P vars rest st
      | Some data \<Rightarrow>
          (case deref st (Value field) of
             None \<Rightarrow> (Some ReflectPanic, st)
           | Some cur \<Rightarrow>
               (case setValue P cur data of
                  Inl err \<Rightarrow> (Some err, st)
                | Inr new \<Rightarrow> loadFromSource_loop P vars rest (store st (Value field) new))))"

definition loadFromSource ::
  "'f platform \<Rightarrow> string list \<Rightarrow> structField list \<Rightarrow> 'f rvalue \<Rightarrow> error option \<times> 'f rvalue" where
  "loadFromSource P source flds st =
     (case readSource source of
        Inl err \<Rightarrow> (Some err, st)
      | Inr vars \<Rightarrow> loadFromSource_loop P vars flds st)"

section \<open>The operating system\<close>

text \<open>
  What the calls see of the system: \<^verbatim>\<open>os.Open\<close> fails or gives a file, of which the
  model keeps the lines that \<^verbatim>\<open>bufio.Scanner\<close> delivers before \<^verbatim>\<open>Scan\<close> returns
  false, and the error that \<^verbatim>\<open>Scanner.Err\<close> would report afterwards (none at the end
  of the file); \<^verbatim>\<open>os.Stat\<close> fails or not; \<^verbatim>\<open>os.Environ\<close>; \<^verbatim>\<open>os.Getwd\<close>.
\<close>

record File =
  Lines :: "string list"
  ScanErr :: "errno option"

record os =
  Open :: "string \<Rightarrow> errno + File"
  Stat :: "string \<Rightarrow> errno option"
  Environ :: "string list"
  Getwd :: "errno + string"

definition IsNotExist :: "errno option \<Rightarrow> bool" where
  "IsNotExist err = (err = Some ENOENT)"

definition loadFromEnv ::
  "'f platform \<Rightarrow> os \<Rightarrow> structField list \<Rightarrow> 'f rvalue \<Rightarrow> error option \<times> 'f rvalue" where
  "loadFromEnv P sys flds st = loadFromSource P (Environ sys) flds st"

definition loadFromFile ::
  "'f platform \<Rightarrow> os \<Rightarrow> string \<Rightarrow> structField list \<Rightarrow> 'f rvalue \<Rightarrow> error option \<times> 'f rvalue" where
  "loadFromFile P sys filename flds st =
     (case Open sys filename of
        Inl e \<Rightarrow> (Some (OSError filename e), st)
      | Inr f \<Rightarrow> loadFromSource P (Lines f) flds st)"

section \<open>LoadFile and Load\<close>

text \<open>
  The argument \<^verbatim>\<open>to interface{}\<close> is \<open>None\<close> for the nil interface and the value
  otherwise. \<^verbatim>\<open>Elem\<close> of a nil pointer is the zero Value, of kind \<^verbatim>\<open>Invalid\<close>. Each
  function returns its error and the argument as the call leaves it.
\<close>

fun Elem :: "'f rvalue \<Rightarrow> 'f rvalue option" where
  "Elem (VPtr e) = e"
| "Elem _ = None"

definition Kind_of_Value :: "'f rvalue option \<Rightarrow> kind" where
  "Kind_of_Value v = (case v of None \<Rightarrow> Kind_Invalid | Some x \<Rightarrow> Kind x)"

definition LoadFile ::
  "'f platform \<Rightarrow> os \<Rightarrow> string \<Rightarrow> 'f rvalue option \<Rightarrow> error option \<times> 'f rvalue option" where
  "LoadFile P sys filename to =
     (case to of
        None \<Rightarrow> (Some TargetError, to)
      | Some v \<Rightarrow>
          if Kind v \<noteq> Kind_Ptr \<or> Kind_of_Value (Elem v) \<noteq> Kind_Struct
          then (Some TargetError, to)
          else
            (case Elem v of
               None \<Rightarrow> (Some TargetError, to)
             | Some st \<Rightarrow>
                 let flds = parseStruct [] st;
                     (err, st1) = loadFromFile P sys filename flds st
                 in if err \<noteq> None \<and> \<not> IsNotExist (Stat sys filename)
                    then (err, Some (VPtr (Some st1)))
                    else
                      let (err2, st2) = loadFromEnv P sys flds st1
                      in (err2, Some (VPtr (Some st2)))))"

definition Load :: "'f platform \<Rightarrow> os \<Rightarrow> 'f rvalue option \<Rightarrow> error option \<times> 'f rvalue option" where
  "Load P sys to =
     (case Getwd sys of
        Inl e \<Rightarrow> (Some (OSError ''getwd'' e), to)
      | Inr dir \<Rightarrow> LoadFile P sys (PathJoin P dir ''.env'') to)"

section \<open>Example platform\<close>

text \<open>
  A 64-bit platform for the concrete examples below. None of them has a floating-point
  field or calls \<^verbatim>\<open>Load\<close> with a working directory, so the three library
  functions are left unspecified.
\<close>

definition platform64 :: "'f platform" where
  "platform64 =
     \<lparr>IntSize = 64, ParseFloat64 = undefined, ToFloat32 = undefined, PathJoin = undefined\<rparr>"

section \<open>Reading and writing through handles\<close>

lemma deref_store_same: "deref st p = Some a \<Longrightarrow> deref (store st p v) p = Some v"
proof (induction p arbitrary: st)
  case Nil
  then show ?case by simp
next
  case (Cons i p)
  then show ?case by (auto split: rvalue.splits if_splits)
qed

lemma deref_store_apart:
  "\<not> prefix p q \<Longrightarrow> \<not> prefix q p \<Longrightarrow> deref (store st p v) q = deref st q"
proof (induction p arbitrary: st q)
  case Nil
  then show ?case by simp
next
  case (Cons i p)
  then obtain j q' where q: "q = j # q'" by (cases q) auto
  show ?case
  proof (cases st)
    case (VStruct fs)
    show ?thesis
    proof (cases "i = j")
      case True
      with Cons.prems q have "\<not> prefix p q'" "\<not> prefix q' p" by auto
      then show ?thesis using Cons.IH VStruct q True by simp
    next
      case False
      then show ?thesis using VStruct q by simp
    qed
  qed (simp_all add: q)
qed

section \<open>The handles that parseStruct returns\<close>

text \<open>
  \<open>bound_leaf st h n\<close>: the handle \<open>h\<close> leads from the struct \<open>st\<close> through exported
  struct-typed fields to an exported field that is not a struct and whose \<^verbatim>\<open>env\<close> tag
  is the non-empty key \<open>n\<close>. \<open>separate hs\<close>: no handle of the list is a prefix of
  another, so the handles address pairwise disjoint storage.
\<close>

fun bound_leaf :: "'f rvalue \<Rightarrow> handle \<Rightarrow> string \<Rightarrow> bool" where
  "bound_leaf st [] n = False"
| "bound_leaf st (j # r) n =
     (j < length (struct_fields st) \<and>
      PkgPath (fst (struct_fields st ! j)) = [] \<and>
      (if Kind (snd (struct_fields st ! j)) = Kind_Struct
       then bound_leaf (snd (struct_fields st ! j)) r n
       else r = [] \<and> n \<noteq> [] \<and> Tag_Get (Tag (fst (struct_fields st ! j))) ''env'' = n))"

fun separate :: "handle list \<Rightarrow> bool" where
  "separate [] = True"
| "separate (h # hs) = ((\<forall>g \<in> set hs. \<not> prefix h g \<and> \<not> prefix g h) \<and> separate hs)"

lemma bound_leaf_Cons:
  "bound_leaf (VStruct (x # rest)) (Suc j # r) n = bound_leaf (VStruct rest) (j # r) n"
  by simp

lemma Kind_Struct_fields: "Kind v = Kind_Struct \<Longrightarrow> v = VStruct (struct_fields v)"
  by (cases v rule: Kind.cases) simp_all

lemma parseStruct_loop_shape:
  "d \<in> set (parseStruct_loop p i fs) \<Longrightarrow>
   \<exists>j r. Value d = p @ (i + j) # r \<and> j < length fs \<and> bound_leaf (VStruct fs) (j # r) (Name d)"
proof (induction p i fs arbitrary: d rule: parseStruct_loop.induct)
  case (1 p i)
  then show ?case by simp
next
  case (2 p i refField refValue rest)
  let ?fs = "(refField, refValue) # rest"
  have later: "\<exists>j r. Value d = p @ (i + j) # r \<and> j < length ?fs \<and> bound_leaf (VStruct ?fs) (j # r) (Name d)"
    if "\<exists>j r. Value d = p @ (Suc i + j) # r \<and> j < length rest \<and>
          bound_leaf (VStruct rest) (j # r) (Name d)"
  proof -
    from that obtain j r where
      "Value d = p @ (Suc i + j) # r" "j < length rest" "bound_leaf (VStruct rest) (j # r) (Name d)"
      by blast
    then have "Value d = p @ (i + Suc j) # r \<and> Suc j < length ?fs \<and>
      bound_leaf (VStruct ?fs) (Suc j # r) (Name d)"
      by (simp cong: if_cong)
    then show ?thesis by blast
  qed
  show ?case
  proof (cases "PkgPath refField \<noteq> []")
    case True
    with "2.prems" have "d \<in> set (parseStruct_loop p (Suc i) rest)" by simp
    from later[OF "2.IH"(1)[OF True this]] show ?thesis .
  next
    case exported: False
    show ?thesis
    proof (cases "Kind refValue = Kind_Struct")
      case True
      with "2.prems" exported consider
        (inner) "d \<in> set (parseStruct_loop (p @ [i]) 0 (struct_fields refValue))" |
        (rest) "d \<in> set (parseStruct_loop p (Suc i) rest)"
        by auto
      then show ?thesis
      proof cases
        case inner
        from "2.IH"(2)[OF exported True inner] obtain j r where
          jr: "Value d = (p @ [i]) @ (0 + j) # r" "j < length (struct_fields refValue)"
            "bound_leaf (VStruct (struct_fields refValue)) (j # r) (Name d)"
          by blast
        from jr(3) have "bound_leaf refValue (j # r) (Name d)"
          using Kind_Struct_fields[OF True] by simp
        with jr(1) have "Value d = p @ (i + 0) # (j # r) \<and> 0 < length ?fs \<and>
          bound_leaf (VStruct ?fs) (0 # j # r) (Name d)"
          using exported True by simp
        then show ?thesis by blast
      next
        case rest
        from later[OF "2.IH"(3)[OF exported True rest]] show ?thesis .
      qed
    next
      case leaf: False
      let ?n = "Tag_Get (Tag refField) ''env''"
      show ?thesis
      proof (cases "?n = []")
        case True
        with "2.prems" exported leaf have "d \<in> set (parseStruct_loop p (Suc i) rest)" by simp
        from later[OF "2.IH"(4)[OF exported leaf refl True this]] show ?thesis .
      next
        case False
        with "2.prems" exported leaf consider
          (here) "d = \<lparr>Name = ?n, Value = p @ [i]\<rparr>" |
          (rest) "d \<in> set (parseStruct_loop p (Suc i) rest)"
          by auto
        then show ?thesis
        proof cases
          case here
          then have "Value d = p @ (i + 0) # [] \<and> 0 < length ?fs \<and>
            bound_leaf (VStruct ?fs) (0 # []) (Name d)"
            using exported leaf False by simp
          then show ?thesis by blast
        next
          case rest
          from later[OF "2.IH"(5)[OF exported leaf refl False rest]] show ?thesis .
        qed
      qed
    qed
  qed
qed

lemma parseStruct_bound_leaf:
  "d \<in> set (parseStruct [] st) \<Longrightarrow> bound_leaf st (Value d) (Name d)"
proof -
  assume d: "d \<in> set (parseStruct [] st)"
  then have "struct_fields st \<noteq> []" by (auto simp: parseStruct_def)
  then have st: "st = VStruct (struct_fields st)" by (cases st) simp_all
  from d obtain j r where "Value d = [] @ (0 + j) # r"
    "bound_leaf (VStruct (struct_fields st)) (j # r) (Name d)"
    unfolding parseStruct_def using parseStruct_loop_shape by blast
  then show ?thesis using st by simp
qed

lemma bound_leaf_deref:
  "bound_leaf st h n \<Longrightarrow> \<exists>v. deref st h = Some v \<and> Kind v \<noteq> Kind_Struct"
proof (induction h arbitrary: st)
  case Nil
  then show ?case by simp
next
  case (Cons j r)
  then have j: "j < length (struct_fields st)" by simp
  then obtain fs where st: "st = VStruct fs" by (cases st) simp_all
  show ?case
  proof (cases "Kind (snd (fs ! j)) = Kind_Struct")
    case True
    with Cons.prems st have "bound_leaf (snd (fs ! j)) r n" by simp
    from Cons.IH[OF this] show ?thesis using st j by simp
  next
    case False
    with Cons.prems st have "r = []" by simp
    then show ?thesis using st j False by simp
  qed
qed

lemma separate_append:
  "separate (xs @ ys) =
   (separate xs \<and> separate ys \<and> (\<forall>x\<in>set xs. \<forall>y\<in>set ys. \<not> prefix x y \<and> \<not> prefix y x))"
  by (induction xs) auto

lemma apart_index: "j \<noteq> k \<Longrightarrow> \<not> prefix (p @ j # r) (p @ k # r')"
  by simp

lemma parseStruct_loop_separate: "separate (map Value (parseStruct_loop p i fs))"
proof (induction p i fs rule: parseStruct_loop.induct)
  case (1 p i)
  then show ?case by simp
next
  case (2 p i refField refValue rest)
  have later: "\<exists>j r. Value d = p @ (Suc i + j) # r" if "d \<in> set (parseStruct_loop p (Suc i) rest)" for d
    using parseStruct_loop_shape[OF that] by blast
  show ?case
  proof (cases "PkgPath refField \<noteq> []")
    case True
    then show ?thesis using "2.IH"(1) by simp
  next
    case exported: False
    show ?thesis
    proof (cases "Kind refValue = Kind_Struct")
      case True
      have cross: "\<not> prefix (Value x) (Value y) \<and> \<not> prefix (Value y) (Value x)"
        if x: "x \<in> set (parseStruct_loop (p @ [i]) 0 (struct_fields refValue))"
        and y: "y \<in> set (parseStruct_loop p (Suc i) rest)" for x y
      proof -
        from parseStruct_loop_shape[OF x] obtain j r where "Value x = (p @ [i]) @ (0 + j) # r" by blast
        then have vx: "Value x = p @ i # (j # r)" by simp
        from later[OF y] obtain k r' where vy: "Value y = p @ (Suc i + k) # r'" by blast
        show ?thesis unfolding vx vy by simp
      qed
      show ?thesis
        using exported True "2.IH"(2,3) cross by (auto simp: separate_append)
    next
      case leaf: False
      let ?n = "Tag_Get (Tag refField) ''env''"
      show ?thesis
      proof (cases "?n = []")
        case True
        then show ?thesis using exported leaf "2.IH"(4) by simp
      next
        case False
        have "\<not> prefix (p @ [i]) (Value y) \<and> \<not> prefix (Value y) (p @ [i])"
          if "y \<in> set (parseStruct_loop p (Suc i) rest)" for y
        proof -
          from later[OF that] obtain k r' where vy: "Value y = p @ (Suc i + k) # r'" by blast
          show ?thesis unfolding vy by simp
        qed
        then show ?thesis using exported leaf False "2.IH"(5) by simp
      qed
    qed
  qed
qed

section \<open>The binding loop\<close>

lemma setValue_Kind: "setValue P cur s = Inr new \<Longrightarrow> Kind new = Kind cur"
  by (cases cur rule: Kind.cases) (auto simp: setValue_def split: sum.splits)

lemma setValue_same_type:
  "setValue P cur s0 = Inr cur1 \<Longrightarrow> setValue P cur1 s = setValue P cur s"
  by (cases cur rule: Kind.cases) (auto simp: setValue_def split: sum.splits)

lemma setValue_not_separator: "setValue P cur s \<noteq> Inl (SeparatorError l)"
  by (cases cur rule: Kind.cases) (auto simp: setValue_def split: sum.splits)

lemma loop_frame:
  "loadFromSource_loop P vars flds st = (e, st') \<Longrightarrow>
   (\<forall>d\<in>set flds. vars (Name d) \<noteq> None \<longrightarrow> \<not> prefix (Value d) q \<and> \<not> prefix q (Value d)) \<Longrightarrow>
   deref st' q = deref st q"
proof (induction flds arbitrary: st)
  case Nil
  then show ?case by simp
next
  case (Cons field rest)
  show ?case
  proof (cases "vars (Name field)")
    case None
    with Cons show ?thesis by simp
  next
    case (Some data)
    with Cons.prems(2) have apart: "\<not> prefix (Value field) q" "\<not> prefix q (Value field)" by auto
    show ?thesis
    proof (cases "deref st (Value field)")
      case None
      with Cons.prems(1) Some show ?thesis by simp
    next
      case cur: (Some cur)
      show ?thesis
      proof (cases "setValue P cur data")
        case (Inl err)
        with Cons.prems(1) Some cur show ?thesis by simp
      next
        case (Inr new)
        with Cons.prems(1) Some cur
        have "loadFromSource_loop P vars rest (store st (Value field) new) = (e, st')" by simp
        from Cons.IH[OF this] Cons.prems(2)
        have "deref st' q = deref (store st (Value field) new) q" by simp
        then show ?thesis using deref_store_apart[OF apart] by simp
      qed
    qed
  qed
qed

lemma loop_bound:
  "loadFromSource_loop P vars flds st = (None, st') \<Longrightarrow> separate (map Value flds) \<Longrightarrow>
   d \<in> set flds \<Longrightarrow> vars (Name d) = Some s \<Longrightarrow>
   \<exists>cur new. deref st (Value d) = Some cur \<and> setValue P cur s = Inr new \<and>
     deref st' (Value d) = Some new"
proof (induction flds arbitrary: st)
  case Nil
  then show ?case by simp
next
  case (Cons field rest)
  from Cons.prems(2) have sep: "separate (map Value rest)"
    and apart: "\<forall>g\<in>set rest. \<not> prefix (Value field) (Value g) \<and> \<not> prefix (Value g) (Value field)"
    by auto
  show ?case
  proof (cases "vars (Name field)")
    case None
    with Cons.prems have "d \<in> set rest" by auto
    moreover from None Cons.prems(1) have "loadFromSource_loop P vars rest st = (None, st')" by simp
    ultimately show ?thesis using Cons.IH sep Cons.prems(4) by blast
  next
    case (Some data)
    with Cons.prems(1) obtain cur new where
      cur: "deref st (Value field) = Some cur" and new: "setValue P cur data = Inr new" and
      rest: "loadFromSource_loop P vars rest (store st (Value field) new) = (None, st')"
      by (auto split: option.splits sum.splits)
    show ?thesis
    proof (cases "d \<in> set rest")
      case True
      from Cons.IH[OF rest sep True Cons.prems(4)] obtain c n where
        "deref (store st (Value field) new) (Value d) = Some c" "setValue P c s = Inr n"
        "deref st' (Value d) = Some n"
        by blast
      moreover have "deref (store st (Value field) new) (Value d) = deref st (Value d)"
        using apart True deref_store_apart by blast
      ultimately show ?thesis by auto
    next
      case False
      with Cons.prems(3) have d: "d = field" by simp
      have "deref st' (Value field) = deref (store st (Value field) new) (Value field)"
        using loop_frame[OF rest] apart by blast
      then have "deref st' (Value field) = Some new" using deref_store_same[OF cur] by simp
      then show ?thesis using d cur new Some Cons.prems(4) by simp
    qed
  qed
qed

lemma loop_append:
  "loadFromSource_loop P vars (pre @ post) st =
   (case loadFromSource_loop P vars pre st of
      (None, st1) \<Rightarrow> loadFromSource_loop P vars post st1
    | (Some e, st1) \<Rightarrow> (Some e, st1))"
  by (induction pre arbitrary: st) (auto split: option.splits sum.splits)

lemma loop_not_separator:
  "loadFromSource_loop P vars flds st = (Some e, st') \<Longrightarrow> e \<noteq> SeparatorError l"
proof (induction flds arbitrary: st)
  case Nil
  then show ?case by simp
next
  case (Cons field rest)
  then show ?case
    using setValue_not_separator by (fastforce split: option.splits sum.splits)
qed

section \<open>The mapping of a source\<close>

text \<open>
  The key-value mapping that a source contributes: what \<^verbatim>\<open>readSource\<close> returns, and
  nothing when it fails.
\<close>

definition source_vars :: "string list \<Rightarrow> (string \<rightharpoonup> string)" where
  "source_vars source = (case readSource source of Inl _ \<Rightarrow> Map.empty | Inr vars \<Rightarrow> vars)"

section \<open>Example target\<close>

text \<open>
  The struct of the package's tests without its \<^verbatim>\<open>float32\<close> field, zero-valued:
  \<^verbatim>\<open>BoolField bool `env:"BOOL_FIELD"`\<close>, \<^verbatim>\<open>IntField int `env:"INT_FIELD"`\<close>,
  \<^verbatim>\<open>UIntField uint `env:"UINT_FIELD"`\<close>, \<^verbatim>\<open>StringField string `env:"STRING_FIELD"`\<close>.
\<close>

definition example_cfg :: "unit rvalue" where
  "example_cfg = VStruct
     [(\<lparr>GoName = ''BoolField'', PkgPath = [], Tag = [(''env'', ''BOOL_FIELD'')]\<rparr>, VBool False),
      (\<lparr>GoName = ''IntField'', PkgPath = [], Tag = [(''env'', ''INT_FIELD'')]\<rparr>, VInt T_int 0),
      (\<lparr>GoName = ''UIntField'', PkgPath = [], Tag = [(''env'', ''UINT_FIELD'')]\<rparr>, VUint T_uint 0),
      (\<lparr>GoName = ''StringField'', PkgPath = [], Tag = [(''env'', ''STRING_FIELD'')]\<rparr>, VString [])]"

section \<open>Malformed lines\<close>

lemma SplitN2_length: "length (SplitN2 s c) \<noteq> 2 \<longleftrightarrow> c \<notin> set s"
  by (simp add: SplitN2_def)

lemma readSource_loop_Inl:
  "readSource_loop vars source = Inl e \<Longrightarrow>
   \<exists>raw. raw \<in> set source \<and> e = SeparatorError (TrimSpace raw) \<and> TrimSpace raw \<noteq> [] \<and>
     \<not> HasPrefix (TrimSpace raw) ''#'' \<and> CHR ''='' \<notin> set (TrimSpace raw)"
proof (induction source arbitrary: vars)
  case Nil
  then show ?case by simp
next
  case (Cons raw rest)
  show ?case
  proof (cases "TrimSpace raw = [] \<or> HasPrefix (TrimSpace raw) ''#''")
    case True
    with Cons.prems have "readSource_loop vars rest = Inl e" by (auto simp: Let_def)
    from Cons.IH[OF this] show ?thesis by auto
  next
    case False
    show ?thesis
    proof (cases "CHR ''='' \<in> set (TrimSpace raw)")
      case True
      with False Cons.prems obtain vars' where "readSource_loop vars' rest = Inl e"
        by (auto simp: Let_def SplitN2_length)
      from Cons.IH[OF this] show ?thesis by auto
    next
      case noeq: False
      with False Cons.prems have "e = SeparatorError (TrimSpace raw)"
        by (auto simp: Let_def SplitN2_length)
      with False noeq show ?thesis by auto
    qed
  qed
qed

text \<open>
  Claim C9. A source pass that fails with the error of a malformed line leaves the target
  exactly as it found it: \<^verbatim>\<open>readSource\<close> has read and checked every line before the
  first field is bound, and the binding loop itself never reports that error. The line
  reported is a line of the source that, once trimmed, is not blank, is not a comment and
  has no \<^verbatim>\<open>=\<close>.
\<close>

theorem malformed_line_atomic:
  assumes "loadFromSource P source flds st = (Some (SeparatorError line), st')"
  shows "st' = st \<and>
    (\<exists>raw. raw \<in> set source \<and> TrimSpace raw = line \<and> line \<noteq> [] \<and>
       \<not> HasPrefix line ''#'' \<and> CHR ''='' \<notin> set line)"
proof (cases "readSource source")
  case (Inl e)
  with assms have "e = SeparatorError line" "st' = st" by (auto simp: loadFromSource_def)
  moreover from Inl have "readSource_loop Map.empty source = Inl e" by (simp add: readSource_def)
  from readSource_loop_Inl[OF this] obtain raw where
    "raw \<in> set source" "e = SeparatorError (TrimSpace raw)" "TrimSpace raw \<noteq> []"
    "\<not> HasPrefix (TrimSpace raw) ''#''" "CHR ''='' \<notin> set (TrimSpace raw)"
    by blast
  ultimately show ?thesis by auto
next
  case (Inr vars)
  with assms have "loadFromSource_loop P vars flds st = (Some (SeparatorError line), st')"
    by (simp add: loadFromSource_def)
  then show ?thesis using loop_not_separator by blast
qed

theorem malformed_line_atomic_witness:
  "loadFromSource platform64 [''INT_FIELD=4'', '' oops ''] (parseStruct [] example_cfg) example_cfg =
     (Some (SeparatorError ''oops''), example_cfg) \<and>
   source_vars [''INT_FIELD=4''] ''INT_FIELD'' = Some ''4''"
proof -
  have h: "loadFromSource platform64 [''INT_FIELD=4'', '' oops ''] (parseStruct [] example_cfg) example_cfg =
     (Some (SeparatorError ''oops''), example_cfg)"
    by code_simp
  have "source_vars [''INT_FIELD=4''] ''INT_FIELD'' = Some ''4''" by code_simp
  with h malformed_line_atomic[OF h] show ?thesis by simp
qed

section \<open>Coercion failures\<close>

lemma separate_distinct: "separate hs \<Longrightarrow> distinct hs"
  by (induction hs) auto

lemma separate_mem:
  "separate hs \<Longrightarrow> g \<in> set hs \<Longrightarrow> h \<in> set hs \<Longrightarrow> g \<noteq> h \<Longrightarrow> \<not> prefix g h"
  by (induction hs) auto

lemma loop_keeps:
  assumes "loadFromSource_loop P vars flds st = (e, st')" and "separate (map Value flds)"
    and "d \<in> set flds" and "vars (Name d) = None"
  shows "deref st' (Value d) = deref st (Value d)"
proof (rule loop_frame[OF assms(1)], intro ballI impI)
  fix d' assume d': "d' \<in> set flds" "vars (Name d') \<noteq> None"
  with assms(4) have "d' \<noteq> d" by auto
  moreover have "inj_on Value (set flds)"
    using separate_distinct[OF assms(2)] by (simp add: distinct_map)
  ultimately have "Value d' \<noteq> Value d" using d'(1) assms(3) by (auto dest: inj_onD)
  then show "\<not> prefix (Value d') (Value d) \<and> \<not> prefix (Value d) (Value d')"
    using separate_mem[OF assms(2)] d'(1) assms(3) by (metis imageI set_map)
qed

text \<open>
  Claim C8. In a binding pass over the descriptors \<open>pre @ field # post\<close>, let the
  descriptors of \<open>pre\<close> bind without error and let the coercion fail on \<open>field\<close>, whose
  key the source has. Then the pass returns that error at once. The target is then as the
  descriptors of \<open>pre\<close> left it: each of them whose key is present holds its coerced
  value, the failing field holds its old value, and so does every field of \<open>post\<close>,
  whether the source has its key or not.
\<close>

theorem coercion_failure_short_circuits:
  assumes pre: "loadFromSource P source pre st = (None, st1)"
    and key: "source_vars source (Name field) = Some data"
    and cur: "deref st (Value field) = Some cur"
    and fail: "setValue P cur data = Inl err"
    and sep: "separate (map Value (pre @ field # post))"
  shows "loadFromSource P source (pre @ field # post) st = (Some err, st1) \<and>
    deref st1 (Value field) = Some cur \<and>
    (\<forall>d\<in>set pre. \<forall>s. source_vars source (Name d) = Some s \<longrightarrow>
       (\<exists>c n. deref st (Value d) = Some c \<and> setValue P c s = Inr n \<and> deref st1 (Value d) = Some n)) \<and>
    (\<forall>d\<in>set post. deref st1 (Value d) = deref st (Value d))"
proof -
  from pre obtain vars where vars: "readSource source = Inr vars"
    and loop: "loadFromSource_loop P vars pre st = (None, st1)"
    by (auto simp: loadFromSource_def split: sum.splits)
  then have sv: "source_vars source = vars" by (simp add: source_vars_def)
  from sep have sep_pre: "separate (map Value pre)"
    and apart: "\<forall>x\<in>set pre. \<forall>y\<in>set (field # post).
       \<not> prefix (Value x) (Value y) \<and> \<not> prefix (Value y) (Value x)"
    by (auto simp: separate_append)
  have untouched: "deref st1 (Value y) = deref st (Value y)" if "y \<in> set (field # post)" for y
    using loop_frame[OF loop] apart that by blast
  then have here: "deref st1 (Value field) = Some cur" using cur by simp
  have "loadFromSource_loop P vars (pre @ field # post) st = (Some err, st1)"
    using loop here key fail sv by (simp add: loop_append)
  then have "loadFromSource P source (pre @ field # post) st = (Some err, st1)"
    using vars by (simp add: loadFromSource_def)
  moreover have "\<exists>c n. deref st (Value d) = Some c \<and> setValue P c s = Inr n \<and> deref st1 (Value d) = Some n"
    if "d \<in> set pre" "source_vars source (Name d) = Some s" for d s
    using loop_bound[OF loop sep_pre that(1)] that(2) sv by simp
  ultimately show ?thesis using here untouched by auto
qed

theorem coercion_failure_short_circuits_witness:
  "loadFromSource platform64 [''BOOL_FIELD=1'', ''INT_FIELD=x'', ''STRING_FIELD=a'']
     (parseStruct [] example_cfg) example_cfg =
     (Some (NumError ''ParseInt'' ''x'' ErrSyntax), store example_cfg [0] (VBool True)) \<and>
   deref (store example_cfg [0] (VBool True)) [0] = Some (VBool True) \<and>
   deref (store example_cfg [0] (VBool True)) [1] = Some (VInt T_int 0) \<and>
   deref (store example_cfg [0] (VBool True)) [3] = Some (VString [])"
proof -
  let ?src = "[''BOOL_FIELD=1'', ''INT_FIELD=x'', ''STRING_FIELD=a'']"
  let ?pre = "[\<lparr>Name = ''BOOL_FIELD'', Value = [0]\<rparr>]"
  let ?field = "\<lparr>Name = ''INT_FIELD'', Value = [1]\<rparr>"
  let ?post = "[\<lparr>Name = ''UINT_FIELD'', Value = [2]\<rparr>, \<lparr>Name = ''STRING_FIELD'', Value = [3]\<rparr>]"
  have flds: "parseStruct [] example_cfg = ?pre @ ?field # ?post" by code_simp
  have h1: "loadFromSource platform64 ?src ?pre example_cfg = (None, store example_cfg [0] (VBool True))"
    by code_simp
  have h2: "source_vars ?src (Name ?field) = Some ''x''" by code_simp
  have h3: "deref example_cfg (Value ?field) = Some (VInt T_int 0)" by code_simp
  have h4: "setValue platform64 (VInt T_int 0 :: unit rvalue) ''x'' = Inl (NumError ''ParseInt'' ''x'' ErrSyntax)"
    by code_simp
  have h5: "separate (map Value (?pre @ ?field # ?post))" by code_simp
  note c = coercion_failure_short_circuits[OF h1 h2 h3 h4 h5]
  have "deref (store example_cfg [0] (VBool True)) [0] = Some (VBool True)" by code_simp
  moreover have "deref (store example_cfg [0] (VBool True)) [3] = Some (VString [])" by code_simp
  ultimately show ?thesis using c flds by simp
qed

section \<open>Numeric coercion\<close>

text \<open>
  Decimal numerals as mathematics reads them, to state what the parsers accept: a
  non-empty string of digits and its value, and the same behind an optional sign.
\<close>

definition dec_step :: "nat \<Rightarrow> char \<Rightarrow> nat" where
  "dec_step n c = n * 10 + digit_val c"

definition nat_numeral :: "string \<Rightarrow> nat option" where
  "nat_numeral s = (if s \<noteq> [] \<and> list_all is_digit s then Some (foldl dec_step 0 s) else None)"

definition int_numeral :: "string \<Rightarrow> int option" where
  "int_numeral s =
     (case s of
        [] \<Rightarrow> None
      | c # cs \<Rightarrow>
          if c = CHR ''-'' then map_option (\<lambda>n. - int n) (nat_numeral cs)
          else if c = CHR ''+'' then map_option int (nat_numeral cs)
          else map_option int (nat_numeral s))"

lemma digit_val_le: "is_digit c \<Longrightarrow> digit_val c \<le> 9"
  unfolding is_digit_def digit_val_def by simp linarith

lemma foldl_dec_step_mono: "n \<le> foldl dec_step n cs"
proof (induction cs arbitrary: n)
  case Nil
  then show ?case by simp
next
  case (Cons c cs)
  have "n \<le> dec_step n c" by (simp add: dec_step_def)
  also have "\<dots> \<le> foldl dec_step (dec_step n c) cs" by (rule Cons.IH)
  finally show ?case by simp
qed

lemma ParseUint_loop_correct:
  "n < 2 ^ 64 \<Longrightarrow>
   ParseUint_loop n cs = Inr m \<longleftrightarrow>
     list_all is_digit cs \<and> foldl dec_step n cs < 2 ^ 64 \<and> m = foldl dec_step n cs"
proof (induction cs arbitrary: n)
  case Nil
  then show ?case by auto
next
  case (Cons c cs)
  show ?case
  proof (cases "is_digit c")
    case False
    then show ?thesis by simp
  next
    case True
    then have d: "digit_val c \<le> 9" by (rule digit_val_le)
    have mono: "dec_step n c \<le> foldl dec_step n (c # cs)"
      using foldl_dec_step_mono[of "dec_step n c" cs] by simp
    show ?thesis
    proof (cases "n \<ge> maxUint64 div 10 + 1")
      case big: True
      then have "dec_step n c \<ge> 2 ^ 64" by (simp add: dec_step_def maxUint64_def)
      with mono have "\<not> foldl dec_step n (c # cs) < 2 ^ 64" by linarith
      with True big show ?thesis by simp
    next
      case small: False
      show ?thesis
      proof (cases "dec_step n c < 2 ^ 64")
        case fits: True
        then have n1: "(n * 10 + digit_val c) mod 2 ^ 64 = dec_step n c"
          by (simp add: dec_step_def)
        have "ParseUint_loop n (c # cs) = ParseUint_loop (dec_step n c) cs"
          using True small fits n1 by (simp add: Let_def maxUint64_def dec_step_def)
        with Cons.IH[OF fits] True show ?thesis by simp
      next
        case over: False
        then have ge: "n * 10 + digit_val c \<ge> 2 ^ 64" by (simp add: dec_step_def)
        from small d have lt: "n * 10 + digit_val c < 2 * 2 ^ 64" by (simp add: maxUint64_def)
        have "(n * 10 + digit_val c) mod 2 ^ 64 = n * 10 + digit_val c - 2 ^ 64"
          using ge lt by (simp add: mod_if le_mod_geq)
        with d ge have "(n * 10 + digit_val c) mod 2 ^ 64 < n * 10" by simp
        then have "ParseUint_loop n (c # cs) = Inl ErrRange"
          using True small by (simp add: Let_def)
        moreover from over mono have "\<not> foldl dec_step n (c # cs) < 2 ^ 64" by linarith
        ultimately show ?thesis by simp
      qed
    qed
  qed
qed

lemma ParseUint_correct:
  "ParseUint s = Inr n \<longleftrightarrow> nat_numeral s = Some n \<and> n < 2 ^ 64"
  using ParseUint_loop_correct[of 0 s n] by (auto simp: ParseUint_def nat_numeral_def)

lemma ParseInt_correct:
  "ParseInt s = Inr i \<longleftrightarrow> int_numeral s = Some i \<and> - (2 ^ 63) \<le> i \<and> i < 2 ^ 63"
proof (cases s)
  case Nil
  then show ?thesis by (simp add: ParseInt_def int_numeral_def)
next
  case (Cons c cs)
  consider (minus) "c = CHR ''-''" | (plus) "c = CHR ''+''" | (none) "c \<noteq> CHR ''-''" "c \<noteq> CHR ''+''"
    by blast
  then show ?thesis
  proof cases
    case minus
    show ?thesis
    proof (cases "ParseUint cs")
      case (Inl e)
      then have "\<not> (\<exists>n. nat_numeral cs = Some n \<and> n < 2 ^ 64)" using ParseUint_correct[of cs] by auto
      then have "\<not> (int_numeral s = Some i \<and> - (2 ^ 63) \<le> i \<and> i < 2 ^ 63)"
        using Cons minus by (auto simp: int_numeral_def)
      moreover have "ParseInt s \<noteq> Inr i" using Cons minus Inl
        by (cases e) (simp_all add: ParseInt_def)
      ultimately show ?thesis by simp
    next
      case (Inr un)
      then have "nat_numeral cs = Some un" using ParseUint_correct[of cs un] by simp
      then show ?thesis using Cons minus Inr
        by (auto simp: ParseInt_def int_numeral_def Let_def)
    qed
  next
    case plus
    show ?thesis
    proof (cases "ParseUint cs")
      case (Inl e)
      then have "\<not> (\<exists>n. nat_numeral cs = Some n \<and> n < 2 ^ 64)" using ParseUint_correct[of cs] by auto
      then have "\<not> (int_numeral s = Some i \<and> - (2 ^ 63) \<le> i \<and> i < 2 ^ 63)"
        using Cons plus by (auto simp: int_numeral_def)
      moreover have "ParseInt s \<noteq> Inr i" using Cons plus Inl
        by (cases e) (simp_all add: ParseInt_def)
      ultimately show ?thesis by simp
    next
      case (Inr un)
      then have "nat_numeral cs = Some un" using ParseUint_correct[of cs un] by simp
      then show ?thesis using Cons plus Inr
        by (auto simp: ParseInt_def int_numeral_def Let_def)
    qed
  next
    case none
    show ?thesis
    proof (cases "ParseUint s")
      case (Inl e)
      then have "\<not> (\<exists>n. nat_numeral s = Some n \<and> n < 2 ^ 64)" using ParseUint_correct[of s] by auto
      then have "\<not> (int_numeral s = Some i \<and> - (2 ^ 63) \<le> i \<and> i < 2 ^ 63)"
        using Cons none by (auto simp: int_numeral_def)
      moreover have "ParseInt s \<noteq> Inr i" using Cons none Inl
        by (cases e) (simp_all add: ParseInt_def)
      ultimately show ?thesis by simp
    next
      case (Inr un)
      then have "nat_numeral s = Some un" using ParseUint_correct[of s un] by simp
      then show ?thesis using Cons none Inr
        by (auto simp: ParseInt_def int_numeral_def Let_def)
    qed
  qed
qed

lemma wrap_signed_fits:
  assumes "0 < w" "- (2 ^ (w - 1)) \<le> i" "i < 2 ^ (w - 1)"
  shows "wrap_signed w i = i"
proof -
  from assms(1) obtain k where w: "w = Suc k" by (cases w) auto
  from assms(2,3) have "0 \<le> i + 2 ^ k" "i + 2 ^ k < 2 ^ Suc k" by (simp_all add: w)
  then have "(i + 2 ^ k) mod 2 ^ Suc k = i + 2 ^ k" by (simp only: mod_pos_pos_trivial)
  then show ?thesis by (simp add: wrap_signed_def w)
qed

lemma wrap_unsigned_fits: "n < 2 ^ w \<Longrightarrow> wrap_unsigned w n = n"
  by (simp add: wrap_unsigned_def)

lemma setValue_VInt:
  "setValue P (VInt t x) s =
     (case ParseInt s of
        Inl r \<Rightarrow> Inl (NumError ''ParseInt'' s r)
      | Inr i \<Rightarrow> Inr (VInt t (wrap_signed (int_bits P t) i)))"
  by (cases t; cases "ParseInt s"; simp add: setValue_def)

lemma setValue_VUint:
  "t \<noteq> T_uintptr \<Longrightarrow>
   setValue P (VUint t x) s =
     (case ParseUint s of
        Inl r \<Rightarrow> Inl (NumError ''ParseUint'' s r)
      | Inr u \<Rightarrow> Inr (VUint t (wrap_unsigned (uint_bits P t) u)))"
  by (cases t; cases "ParseUint s"; simp add: setValue_def)

lemma setValue_VFloat:
  "setValue P (VFloat t x) s =
     (case ParseFloat64 P s of
        Inl r \<Rightarrow> Inl (NumError ''ParseFloat'' s r)
      | Inr f \<Rightarrow> Inr (VFloat t (if t = T_float32 then ToFloat32 P f else f)))"
  by (cases t; cases "ParseFloat64 P s"; simp add: setValue_def)

lemma setValue_VInt_iff:
  "setValue P (VInt t x) s = Inr v \<longleftrightarrow>
     (\<exists>i. int_numeral s = Some i \<and> - (2 ^ 63) \<le> i \<and> i < 2 ^ 63 \<and>
          v = VInt t (wrap_signed (int_bits P t) i))"
proof -
  have "setValue P (VInt t x) s = Inr v \<longleftrightarrow>
     (\<exists>i. ParseInt s = Inr i \<and> v = VInt t (wrap_signed (int_bits P t) i))"
    by (cases "ParseInt s") (auto simp: setValue_VInt)
  also have "\<dots> \<longleftrightarrow> (\<exists>i. (int_numeral s = Some i \<and> - (2 ^ 63) \<le> i \<and> i < 2 ^ 63) \<and>
          v = VInt t (wrap_signed (int_bits P t) i))"
    by (simp only: ParseInt_correct)
  finally show ?thesis by (simp only: conj_assoc)
qed

lemma setValue_VUint_iff:
  assumes "u \<noteq> T_uintptr"
  shows "setValue P (VUint u y) s = Inr v \<longleftrightarrow>
     (\<exists>n. nat_numeral s = Some n \<and> n < 2 ^ 64 \<and> v = VUint u (wrap_unsigned (uint_bits P u) n))"
proof -
  have "setValue P (VUint u y) s = Inr v \<longleftrightarrow>
     (\<exists>n. ParseUint s = Inr n \<and> v = VUint u (wrap_unsigned (uint_bits P u) n))"
    by (cases "ParseUint s") (auto simp: setValue_VUint[OF assms])
  also have "\<dots> \<longleftrightarrow> (\<exists>n. (nat_numeral s = Some n \<and> n < 2 ^ 64) \<and>
          v = VUint u (wrap_unsigned (uint_bits P u) n))"
    by (simp only: ParseUint_correct)
  finally show ?thesis by (simp only: conj_assoc)
qed

lemma setValue_VFloat_iff:
  "setValue P (VFloat f z) s = Inr v \<longleftrightarrow>
     (\<exists>r. ParseFloat64 P s = Inr r \<and> v = VFloat f (if f = T_float32 then ToFloat32 P r else r))"
  by (cases "ParseFloat64 P s") (auto simp: setValue_VFloat)

text \<open>
  Claim C2, as the code has it. A signed field accepts exactly the decimal numerals of
  64-bit range, an unsigned field other than \<^verbatim>\<open>uintptr\<close> exactly the unsigned ones
  below \<open>2 ^ 64\<close>, a floating-point field exactly what \<^verbatim>\<open>ParseFloat(s, 64)\<close>
  accepts: the width checked is 64 bits, whatever the width of the field. The value is
  then stored through the conversion to the field's type, which keeps the low bits of an
  integer (\<open>wrap_signed_fits\<close> and \<open>wrap_unsigned_fits\<close>: a value that fits the field
  is stored as it is) and rounds a float to \<^verbatim>\<open>float32\<close>. Every failure is a
  \<^verbatim>\<open>NumError\<close> of the parser, carrying the input. A \<^verbatim>\<open>uintptr\<close> field is not
  supported.
\<close>

theorem setValue_numeric_64:
  "(setValue P (VInt t x) s1 = Inr v1 \<longleftrightarrow>
      (\<exists>i. int_numeral s1 = Some i \<and> - (2 ^ 63) \<le> i \<and> i < 2 ^ 63 \<and>
           v1 = VInt t (wrap_signed (int_bits P t) i))) \<and>
   (u \<noteq> T_uintptr \<longrightarrow>
      (setValue P (VUint u y) s2 = Inr v2 \<longleftrightarrow>
         (\<exists>n. nat_numeral s2 = Some n \<and> n < 2 ^ 64 \<and>
              v2 = VUint u (wrap_unsigned (uint_bits P u) n)))) \<and>
   (setValue P (VFloat f z) s3 = Inr v3 \<longleftrightarrow>
      (\<exists>r. ParseFloat64 P s3 = Inr r \<and>
           v3 = VFloat f (if f = T_float32 then ToFloat32 P r else r))) \<and>
   (setValue P (VInt t x) s4 = Inl e1 \<longrightarrow> (\<exists>r. e1 = NumError ''ParseInt'' s4 r)) \<and>
   (u \<noteq> T_uintptr \<longrightarrow> setValue P (VUint u y) s5 = Inl e2 \<longrightarrow>
      (\<exists>r. e2 = NumError ''ParseUint'' s5 r)) \<and>
   (setValue P (VFloat f z) s6 = Inl e3 \<longrightarrow> (\<exists>r. e3 = NumError ''ParseFloat'' s6 r)) \<and>
   setValue P (VUint T_uintptr y) s7 = Inl (NotSupported Kind_Uintptr)"
proof (intro conjI impI)
  show "setValue P (VInt t x) s1 = Inr v1 \<longleftrightarrow>
      (\<exists>i. int_numeral s1 = Some i \<and> - (2 ^ 63) \<le> i \<and> i < 2 ^ 63 \<and>
           v1 = VInt t (wrap_signed (int_bits P t) i))"
    by (rule setValue_VInt_iff)
next
  assume "u \<noteq> T_uintptr"
  then show "setValue P (VUint u y) s2 = Inr v2 \<longleftrightarrow>
         (\<exists>n. nat_numeral s2 = Some n \<and> n < 2 ^ 64 \<and>
              v2 = VUint u (wrap_unsigned (uint_bits P u) n))"
    by (rule setValue_VUint_iff)
next
  show "setValue P (VFloat f z) s3 = Inr v3 \<longleftrightarrow>
      (\<exists>r. ParseFloat64 P s3 = Inr r \<and>
           v3 = VFloat f (if f = T_float32 then ToFloat32 P r else r))"
    by (rule setValue_VFloat_iff)
next
  assume "setValue P (VInt t x) s4 = Inl e1"
  then show "\<exists>r. e1 = NumError ''ParseInt'' s4 r"
    by (cases "ParseInt s4") (auto simp: setValue_VInt)
next
  assume "u \<noteq> T_uintptr" "setValue P (VUint u y) s5 = Inl e2"
  then show "\<exists>r. e2 = NumError ''ParseUint'' s5 r"
    by (cases "ParseUint s5") (auto simp: setValue_VUint)
next
  assume "setValue P (VFloat f z) s6 = Inl e3"
  then show "\<exists>r. e3 = NumError ''ParseFloat'' s6 r"
    by (cases "ParseFloat64 P s6") (auto simp: setValue_VFloat)
next
  show "setValue P (VUint T_uintptr y) s7 = Inl (NotSupported Kind_Uintptr)"
    by (simp add: setValue_def)
qed

lemmas strconv_defs =
  ParseBool_def ParseInt_def ParseUint_def is_digit_def digit_val_def maxUint64_def
  wrap_signed_def wrap_unsigned_def platform64_def

theorem setValue_numeric_64_witness:
  "setValue platform64 (VInt T_int8 0 :: unit rvalue) ''-8'' = Inr (VInt T_int8 (- 8)) \<and>
   T_uint16 \<noteq> T_uintptr \<and>
   setValue platform64 (VUint T_uint16 0 :: unit rvalue) ''65543'' = Inr (VUint T_uint16 7) \<and>
   setValue platform64 (VInt T_int8 0 :: unit rvalue) ''9223372036854775808'' =
     Inl (NumError ''ParseInt'' ''9223372036854775808'' ErrRange) \<and>
   setValue platform64 (VUint T_uint16 0 :: unit rvalue) ''-1'' =
     Inl (NumError ''ParseUint'' ''-1'' ErrSyntax)"
proof -
  note t = setValue_numeric_64[of platform64 T_int8 0 "''-8''" "VInt T_int8 (- 8) :: unit rvalue"
      T_uint16 0 "''65543''" "VUint T_uint16 7" T_float64 "()" "[]" "VBool False"
      "''9223372036854775808''" "NumError ''ParseInt'' ''9223372036854775808'' ErrRange"
      "''-1''" "NumError ''ParseUint'' ''-1'' ErrSyntax"]
  have n1: "int_numeral ''-8'' = Some (- 8)"
    by (simp add: int_numeral_def nat_numeral_def dec_step_def strconv_defs)
  have w1: "wrap_signed (int_bits (platform64 :: unit platform) T_int8) (- 8) = - 8"
    by (simp add: strconv_defs)
  have n2: "nat_numeral ''65543'' = Some 65543"
    by (simp add: nat_numeral_def dec_step_def strconv_defs)
  have w2: "wrap_unsigned (uint_bits (platform64 :: unit platform) T_uint16) 65543 = 7"
    by (simp add: strconv_defs)
  have u: "T_uint16 \<noteq> T_uintptr" by simp
  have e1: "setValue platform64 (VInt T_int8 0 :: unit rvalue) ''9223372036854775808'' =
     Inl (NumError ''ParseInt'' ''9223372036854775808'' ErrRange)"
    by (simp add: setValue_def strconv_defs)
  have e2: "setValue platform64 (VUint T_uint16 0 :: unit rvalue) ''-1'' =
     Inl (NumError ''ParseUint'' ''-1'' ErrSyntax)"
    by (simp add: setValue_def strconv_defs)
  from t n1 w1 have "setValue platform64 (VInt T_int8 0 :: unit rvalue) ''-8'' = Inr (VInt T_int8 (- 8))"
    by auto
  moreover from t u n2 w2
  have "setValue platform64 (VUint T_uint16 0 :: unit rvalue) ''65543'' = Inr (VUint T_uint16 7)"
    by auto
  ultimately show ?thesis using u e1 e2 by simp
qed

text \<open>
  Claim C2 as stated fails: \<^verbatim>\<open>300\<close> does not fit an \<^verbatim>\<open>int8\<close> field, yet
  \<^verbatim>\<open>setValue\<close> returns no error and stores \<^verbatim>\<open>int8(300)\<close>, which is 44.
\<close>

theorem setValue_width_counterexample:
  "int_numeral ''300'' = Some 300 \<and> \<not> (300 :: int) < 2 ^ 7 \<and>
   setValue platform64 (VInt T_int8 0 :: unit rvalue) ''300'' = Inr (VInt T_int8 44)"
  by (simp add: setValue_def strconv_defs int_numeral_def nat_numeral_def dec_step_def)

section \<open>Trimming, and keys that start with the comment sign\<close>

lemma leading_space_None: "leading_space s = None \<longleftrightarrow> (\<forall>w\<in>set space_runes. \<not> prefix w s)"
  by (auto simp: leading_space_def find_None_iff)

lemma TrimLeftSpace_clean: "leading_space (TrimLeftSpace s) = None"
proof (induction s rule: TrimLeftSpace.induct)
  case (1 s)
  show ?case
  proof (cases "leading_space s")
    case None
    then show ?thesis by (subst TrimLeftSpace.simps) simp
  next
    case (Some w)
    with 1 show ?thesis by (subst TrimLeftSpace.simps) simp
  qed
qed

lemma TrimLeftSpace_id: "leading_space s = None \<Longrightarrow> TrimLeftSpace s = s"
  by (subst TrimLeftSpace.simps) simp

lemma TrimRightSpace_prefix: "prefix (TrimRightSpace s) s"
proof (induction s rule: TrimRightSpace.induct)
  case (1 s)
  show ?case
  proof (cases "trailing_space s")
    case None
    then show ?thesis by (subst TrimRightSpace.simps) simp
  next
    case (Some w)
    with 1 have "prefix (TrimRightSpace (take (length s - length w) s)) (take (length s - length w) s)"
      by simp
    also have "prefix (take (length s - length w) s) s" by (rule take_is_prefix)
    finally show ?thesis using Some by (subst TrimRightSpace.simps) simp
  qed
qed

lemma leading_space_prefix:
  "prefix t s \<Longrightarrow> leading_space s = None \<Longrightarrow> leading_space t = None"
  unfolding leading_space_None using prefix_order.trans by blast

lemma TrimSpace_clean: "leading_space (TrimSpace s) = None"
  unfolding TrimSpace_def
  using leading_space_prefix[OF TrimRightSpace_prefix TrimLeftSpace_clean] .

lemma TrimSpace_prefix: "leading_space s = None \<Longrightarrow> prefix (TrimSpace s) s"
  by (simp only: TrimSpace_def TrimLeftSpace_id TrimRightSpace_prefix)

text \<open>The key of a line starts as the trimmed line does.\<close>

lemma key_prefix_line:
  "prefix (TrimSpace (takeWhile P (TrimSpace raw))) (TrimSpace raw)"
proof -
  have p: "prefix (takeWhile P (TrimSpace raw)) (TrimSpace raw)"
    by (metis prefixI takeWhile_dropWhile_id)
  then have "leading_space (takeWhile P (TrimSpace raw)) = None"
    using leading_space_prefix TrimSpace_clean by blast
  then have "prefix (TrimSpace (takeWhile P (TrimSpace raw))) (takeWhile P (TrimSpace raw))"
    by (rule TrimSpace_prefix)
  with p show ?thesis using prefix_order.trans by blast
qed

lemma readSource_loop_hash:
  "readSource_loop vars0 source = Inr vars \<Longrightarrow> HasPrefix k ''#'' \<Longrightarrow> vars k = vars0 k"
proof (induction source arbitrary: vars0)
  case Nil
  then show ?case by simp
next
  case (Cons raw rest)
  let ?line = "TrimSpace raw"
  show ?case
  proof (cases "?line = [] \<or> HasPrefix ?line ''#''")
    case True
    with Cons.prems have "readSource_loop vars0 rest = Inr vars" by (auto simp: Let_def)
    from Cons.IH[OF this Cons.prems(2)] show ?thesis .
  next
    case False
    let ?key = "TrimSpace (takeWhile (\<lambda>c. c \<noteq> CHR ''='') ?line)"
    from False Cons.prems(1) obtain v where
      rest: "readSource_loop (vars0(?key \<mapsto> v)) rest = Inr vars"
      by (auto simp: Let_def SplitN2_def split: if_splits)
    have "prefix ?key ?line" by (rule key_prefix_line)
    with False have "\<not> HasPrefix ?key ''#''"
      unfolding HasPrefix_def using prefix_order.trans by blast
    with Cons.prems(2) have "k \<noteq> ?key" by auto
    with Cons.IH[OF rest Cons.prems(2)] show ?thesis by simp
  qed
qed

lemma source_vars_hash: "HasPrefix k ''#'' \<Longrightarrow> source_vars source k = None"
proof (cases "readSource source")
  case (Inl e)
  then show ?thesis by (simp add: source_vars_def)
next
  case (Inr vars)
  assume "HasPrefix k ''#''"
  with Inr readSource_loop_hash[of Map.empty source vars k] show ?thesis
    by (simp add: source_vars_def readSource_def)
qed

section \<open>The target after a call\<close>

text \<open>
  \<open>target_field to h\<close> reads the field that the handle \<open>h\<close> addresses in the struct
  behind the pointer \<open>to\<close>. The two systems below serve the examples: one where every
  path opens a file with the given lines, one where no file exists.
\<close>

definition target_field :: "'f rvalue option \<Rightarrow> handle \<Rightarrow> 'f rvalue option" where
  "target_field to h = (case to of Some (VPtr (Some st)) \<Rightarrow> deref st h | _ \<Rightarrow> None)"

definition file_os :: "string list \<Rightarrow> string list \<Rightarrow> os" where
  "file_os file_lines environ =
     \<lparr>Open = (\<lambda>_. Inr \<lparr>Lines = file_lines, ScanErr = None\<rparr>), Stat = (\<lambda>_. None),
      Environ = environ, Getwd = Inr ''/app''\<rparr>"

definition no_file_os :: "string list \<Rightarrow> os" where
  "no_file_os environ =
     \<lparr>Open = (\<lambda>_. Inl ENOENT), Stat = (\<lambda>_. Some ENOENT),
      Environ = environ, Getwd = Inr ''/app''\<rparr>"

lemma target_field_simp [simp]: "target_field (Some (VPtr (Some st))) h = deref st h"
  by (simp add: target_field_def)

lemma pass_frame:
  assumes "loadFromSource P source flds st = (e, st')"
    and "\<forall>d\<in>set flds. prefix (Value d) q \<or> prefix q (Value d) \<longrightarrow> HasPrefix (Name d) ''#''"
  shows "deref st' q = deref st q"
proof (cases "readSource source")
  case (Inl err)
  with assms(1) show ?thesis by (simp add: loadFromSource_def)
next
  case (Inr vars)
  with assms(1) have loop: "loadFromSource_loop P vars flds st = (e, st')"
    by (simp add: loadFromSource_def)
  have none: "vars k = None" if "HasPrefix k ''#''" for k
    using source_vars_hash[OF that, of source] Inr by (simp add: source_vars_def)
  have "\<forall>d\<in>set flds. vars (Name d) \<noteq> None \<longrightarrow>
      \<not> prefix (Value d) q \<and> \<not> prefix q (Value d)"
  proof (intro ballI impI)
    fix d assume d: "d \<in> set flds" "vars (Name d) \<noteq> None"
    show "\<not> prefix (Value d) q \<and> \<not> prefix q (Value d)"
    proof (rule ccontr)
      assume "\<not> (\<not> prefix (Value d) q \<and> \<not> prefix q (Value d))"
      then have "prefix (Value d) q \<or> prefix q (Value d)" by simp
      moreover from assms(2) d(1)
      have "prefix (Value d) q \<or> prefix q (Value d) \<longrightarrow> HasPrefix (Name d) ''#''" ..
      ultimately have "HasPrefix (Name d) ''#''" by (rule rev_mp)
      from none[OF this] d(2) show False by simp
    qed
  qed
  from loop_frame[OF loop this] show ?thesis .
qed

lemma Kind_Struct_iff: "Kind st = Kind_Struct \<longleftrightarrow> (\<exists>fs. st = VStruct fs)"
  by (cases st rule: Kind.cases) simp_all

lemma LoadFile_struct:
  "Kind st = Kind_Struct \<Longrightarrow>
   LoadFile P sys filename (Some (VPtr (Some st))) =
     (let flds = parseStruct [] st;
          (err, st1) = loadFromFile P sys filename flds st
      in if err \<noteq> None \<and> \<not> IsNotExist (Stat sys filename)
         then (err, Some (VPtr (Some st1)))
         else
           let (err2, st2) = loadFromEnv P sys flds st1
           in (err2, Some (VPtr (Some st2))))"
  unfolding LoadFile_def Kind_of_Value_def by simp

lemma LoadFile_invalid:
  "\<nexists>fs. to = Some (VPtr (Some (VStruct fs))) \<Longrightarrow> LoadFile P sys filename to = (Some TargetError, to)"
proof (cases to)
  case None
  then show ?thesis by (simp add: LoadFile_def)
next
  case (Some v)
  assume inv: "\<nexists>fs. to = Some (VPtr (Some (VStruct fs)))"
  show ?thesis
  proof (cases "Kind v = Kind_Ptr")
    case False
    with Some show ?thesis by (simp add: LoadFile_def)
  next
    case True
    then obtain e where v: "v = VPtr e" by (cases v rule: Kind.cases) simp_all
    show ?thesis
    proof (cases e)
      case None
      with Some v show ?thesis by (simp add: LoadFile_def Kind_of_Value_def)
    next
      case (Some st)
      with inv \<open>to = Some v\<close> v have "Kind st \<noteq> Kind_Struct" by (auto simp: Kind_Struct_iff)
      with Some \<open>to = Some v\<close> v show ?thesis by (simp add: LoadFile_def Kind_of_Value_def)
    qed
  qed
qed

lemma loadFromFile_frame:
  assumes "loadFromFile P sys filename flds st = (e, st')"
    and "\<forall>d\<in>set flds. prefix (Value d) q \<or> prefix q (Value d) \<longrightarrow> HasPrefix (Name d) ''#''"
  shows "deref st' q = deref st q"
proof (cases "Open sys filename")
  case (Inl en)
  with assms(1) show ?thesis by (simp add: loadFromFile_def)
next
  case (Inr f)
  with assms(1) have "loadFromSource P (Lines f) flds st = (e, st')" by (simp add: loadFromFile_def)
  from pass_frame[OF this assms(2)] show ?thesis .
qed

lemma LoadFile_frame:
  assumes "LoadFile P sys filename (Some (VPtr (Some st))) = (e, to')"
    and H: "\<forall>d\<in>set (parseStruct [] st).
        prefix (Value d) q \<or> prefix q (Value d) \<longrightarrow> HasPrefix (Name d) ''#''"
  shows "target_field to' q = deref st q"
proof (cases "Kind st = Kind_Struct")
  case False
  then have "\<nexists>fs. Some (VPtr (Some st)) = Some (VPtr (Some (VStruct fs)))" by auto
  from LoadFile_invalid[OF this, of P sys filename] assms(1) have "to' = Some (VPtr (Some st))"
    by simp
  then show ?thesis by simp
next
  case True
  obtain err st1 where fpass: "loadFromFile P sys filename (parseStruct [] st) st = (err, st1)"
    by (cases "loadFromFile P sys filename (parseStruct [] st) st")
  have st1: "deref st1 q = deref st q" by (rule loadFromFile_frame[OF fpass H])
  show ?thesis
  proof (cases "err \<noteq> None \<and> \<not> IsNotExist (Stat sys filename)")
    case True
    with assms(1) fpass \<open>Kind st = Kind_Struct\<close> have "to' = Some (VPtr (Some st1))"
      by (simp add: LoadFile_struct)
    with st1 show ?thesis by simp
  next
    case False
    obtain err2 st2 where env: "loadFromEnv P sys (parseStruct [] st) st1 = (err2, st2)"
      by (cases "loadFromEnv P sys (parseStruct [] st) st1")
    then have "loadFromSource P (Environ sys) (parseStruct [] st) st1 = (err2, st2)"
      by (simp add: loadFromEnv_def)
    from pass_frame[OF this H] have "deref st2 q = deref st1 q" .
    moreover from assms(1) fpass env False \<open>Kind st = Kind_Struct\<close>
    have "to' = Some (VPtr (Some st2))" by (auto simp: LoadFile_struct)
    ultimately show ?thesis using st1 by simp
  qed
qed

lemma Load_cases:
  assumes "Load P sys to = (e, to')"
  obtains (nowd) en where "Getwd sys = Inl en" "e = Some (OSError ''getwd'' en)" "to' = to"
  | (wd) dir where "Getwd sys = Inr dir" "LoadFile P sys (PathJoin P dir ''.env'') to = (e, to')"
  using assms by (cases "Getwd sys") (auto simp: Load_def)

lemma Load_frame:
  assumes "Load P sys (Some (VPtr (Some st))) = (e, to')"
    and H: "\<forall>d\<in>set (parseStruct [] st).
        prefix (Value d) q \<or> prefix q (Value d) \<longrightarrow> HasPrefix (Name d) ''#''"
  shows "target_field to' q = deref st q"
  using assms(1)
proof (cases rule: Load_cases)
  case (nowd en)
  then show ?thesis by simp
next
  case (wd dir)
  from LoadFile_frame[OF wd(2) H] show ?thesis .
qed

lemma parseStruct_separate: "separate (map Value (parseStruct p st))"
  by (simp add: parseStruct_def parseStruct_loop_separate)

lemma parseStruct_same_handle:
  assumes "d \<in> set (parseStruct p st)" "d' \<in> set (parseStruct p st)"
    and "prefix (Value d') (Value d) \<or> prefix (Value d) (Value d')"
  shows "d' = d"
proof -
  have sep: "separate (map Value (parseStruct p st))" by (rule parseStruct_separate)
  have in1: "Value d \<in> set (map Value (parseStruct p st))"
    and in2: "Value d' \<in> set (map Value (parseStruct p st))"
    using assms(1,2) by simp_all
  have "Value d' = Value d"
  proof (rule ccontr)
    assume ne: "Value d' \<noteq> Value d"
    then have "\<not> prefix (Value d') (Value d)" using separate_mem[OF sep in2 in1] by simp
    moreover from ne have "\<not> prefix (Value d) (Value d')" using separate_mem[OF sep in1 in2] by simp
    ultimately show False using assms(3) by simp
  qed
  moreover have "inj_on Value (set (parseStruct p st))"
    using separate_distinct[OF sep] by (simp add: distinct_map)
  ultimately show ?thesis using assms(1,2) by (auto dest: inj_onD)
qed

text \<open>
  Claim C10. A field whose key begins with \<^verbatim>\<open>#\<close> is never bound. No source yields a
  mapping with such a key: the key of a line is a prefix of the trimmed line, so the line
  would begin with \<^verbatim>\<open>#\<close> and be dropped as a comment. Hence after any call of
  \<^verbatim>\<open>LoadFile\<close> or \<^verbatim>\<open>Load\<close>, whatever it returns, the field holds its old value.
\<close>

theorem hash_key_never_bound:
  assumes d: "d \<in> set (parseStruct [] st)" and hash: "HasPrefix (Name d) ''#''"
  shows "source_vars source (Name d) = None \<and>
    (LoadFile P sys filename (Some (VPtr (Some st))) = (e, to') \<longrightarrow>
       target_field to' (Value d) = deref st (Value d)) \<and>
    (Load P sys (Some (VPtr (Some st))) = (e2, to2) \<longrightarrow>
       target_field to2 (Value d) = deref st (Value d))"
proof -
  have H: "\<forall>d'\<in>set (parseStruct [] st).
      prefix (Value d') (Value d) \<or> prefix (Value d) (Value d') \<longrightarrow> HasPrefix (Name d') ''#''"
    using parseStruct_same_handle[OF d] hash by blast
  show ?thesis
    using source_vars_hash[OF hash] LoadFile_frame[OF _ H] Load_frame[OF _ H] by blast
qed

definition hash_cfg :: "unit rvalue" where
  "hash_cfg = VStruct
     [(\<lparr>GoName = ''Note'', PkgPath = [], Tag = [(''env'', ''#NOTE'')]\<rparr>, VString ''default''),
      (\<lparr>GoName = ''Port'', PkgPath = [], Tag = [(''env'', ''PORT'')]\<rparr>, VInt T_int 80)]"

theorem hash_key_never_bound_witness:
  "\<lparr>Name = ''#NOTE'', Value = [0]\<rparr> \<in> set (parseStruct [] hash_cfg) \<and>
   HasPrefix ''#NOTE'' ''#'' \<and>
   source_vars [''#NOTE=file'', ''PORT=8080''] ''#NOTE'' = None \<and>
   fst (LoadFile platform64 (file_os [''#NOTE=file'', ''PORT=8080''] [''#NOTE=env''])
      ''.env'' (Some (VPtr (Some hash_cfg)))) = None \<and>
   target_field (snd (LoadFile platform64 (file_os [''#NOTE=file'', ''PORT=8080''] [''#NOTE=env''])
      ''.env'' (Some (VPtr (Some hash_cfg))))) [0] = Some (VString ''default'') \<and>
   target_field (snd (LoadFile platform64 (file_os [''#NOTE=file'', ''PORT=8080''] [''#NOTE=env''])
      ''.env'' (Some (VPtr (Some hash_cfg))))) [1] = Some (VInt T_int 8080)"
proof -
  let ?d = "\<lparr>Name = ''#NOTE'', Value = [0]\<rparr>"
  let ?sys = "file_os [''#NOTE=file'', ''PORT=8080''] [''#NOTE=env'']"
  let ?r = "LoadFile platform64 ?sys ''.env'' (Some (VPtr (Some hash_cfg)))"
  have h1: "?d \<in> set (parseStruct [] hash_cfg)" by code_simp
  have h2: "HasPrefix (Name ?d) ''#''" by code_simp
  have r: "?r = (fst ?r, snd ?r)" by simp
  note c = hash_key_never_bound[OF h1 h2, of "[''#NOTE=file'', ''PORT=8080'']"
      platform64 ?sys "''.env''" "fst ?r" "snd ?r"]
  have v0: "deref hash_cfg (Value ?d) = Some (VString ''default'')" by code_simp
  have e: "fst ?r = None" by code_simp
  have p: "target_field (snd ?r) [1] = Some (VInt T_int 8080)" by code_simp
  from c r v0 have "target_field (snd ?r) [0] = Some (VString ''default'')" by simp
  with c h1 h2 e p show ?thesis by simp
qed

section \<open>Unexported fields\<close>

lemma deref_append:
  "deref st (a @ b) = (case deref st a of None \<Rightarrow> None | Some v \<Rightarrow> deref v b)"
proof (induction a arbitrary: st)
  case Nil
  then show ?case by simp
next
  case (Cons j a)
  then show ?case by (cases st) simp_all
qed

lemma deref_struct_fields:
  "j < length (struct_fields st) \<Longrightarrow> deref st (j # r) = deref (snd (struct_fields st ! j)) r"
  by (cases st) simp_all

lemma bound_leaf_exported:
  "bound_leaf st (a @ i # b) n \<Longrightarrow>
   \<exists>fs. deref st a = Some (VStruct fs) \<and> i < length fs \<and> PkgPath (fst (fs ! i)) = []"
proof (induction a arbitrary: st)
  case Nil
  then have i: "i < length (struct_fields st)" "PkgPath (fst (struct_fields st ! i)) = []"
    by simp_all
  then have "st = VStruct (struct_fields st)" by (cases st) simp_all
  with i show ?case by auto
next
  case (Cons j a)
  then have j: "j < length (struct_fields st)" by simp
  have "Kind (snd (struct_fields st ! j)) = Kind_Struct"
  proof (rule ccontr)
    assume "Kind (snd (struct_fields st ! j)) \<noteq> Kind_Struct"
    with Cons.prems have "a @ i # b = []" by simp
    then show False by simp
  qed
  with Cons.prems have "bound_leaf (snd (struct_fields st ! j)) (a @ i # b) n" by simp
  from Cons.IH[OF this] show ?case using deref_struct_fields[OF j] by simp
qed

lemma parseStruct_skips_unexported:
  assumes q: "deref st q = Some (VStruct fs)" and i: "i < length fs"
    and priv: "PkgPath (fst (fs ! i)) \<noteq> []"
    and d: "d \<in> set (parseStruct [] st)"
  shows "\<not> prefix (q @ [i]) (Value d) \<and> \<not> prefix (Value d) (q @ [i])"
proof -
  from d have leaf: "bound_leaf st (Value d) (Name d)" by (rule parseStruct_bound_leaf)
  have below: "\<not> prefix (q @ [i]) (Value d)"
  proof
    assume "prefix (q @ [i]) (Value d)"
    then obtain b where "Value d = q @ i # b" by (auto simp: prefix_def)
    with leaf bound_leaf_exported[of st q i b "Name d"] q priv show False by auto
  qed
  have "\<not> prefix (Value d) (q @ [i])"
  proof
    assume "prefix (Value d) (q @ [i])"
    with below have "prefix (Value d) q" by (auto simp: prefix_snoc)
    then obtain c where c: "q = Value d @ c" by (auto simp: prefix_def)
    from bound_leaf_deref[OF leaf] obtain v where
      v: "deref st (Value d) = Some v" "Kind v \<noteq> Kind_Struct" by blast
    from q c v(1) have "deref v c = Some (VStruct fs)" by (simp add: deref_append)
    with v(2) show False by (cases c; cases v) simp_all
  qed
  with below show ?thesis by simp
qed

text \<open>
  The struct of \<^verbatim>\<open>TestFieldVisibility\<close> and the environment that \<^verbatim>\<open>setupEnv\<close>
  installs.
\<close>

definition visibility_cfg :: "unit rvalue" where
  "visibility_cfg = VStruct
     [(\<lparr>GoName = ''BoolField'', PkgPath = [], Tag = []\<rparr>, VBool False),
      (\<lparr>GoName = ''IntField'', PkgPath = [], Tag = [(''env'', [])]\<rparr>, VInt T_int 0),
      (\<lparr>GoName = ''floatField'', PkgPath = ''envcfg'', Tag = [(''env'', ''FLOAT_FIELD'')]\<rparr>,
         VFloat T_float32 ()),
      (\<lparr>GoName = ''StringField'', PkgPath = [], Tag = [(''env'', ''STRING_FIELD'')]\<rparr>, VString [])]"

definition test_environ :: "string list" where
  "test_environ =
     [''BOOL_FIELD=true'', ''INT_FIELD=-8'', ''UINT_FIELD=7'', ''FLOAT_FIELD=16.5'',
      ''STRING_FIELD=32'']"

text \<open>
  Claim C4. Let field \<open>i\<close> of a struct inside the target (the target itself when \<open>q\<close>
  is empty) be unexported. Then no descriptor that \<^verbatim>\<open>parseStruct\<close> returns addresses
  the field or anything inside it, and after any call of \<^verbatim>\<open>LoadFile\<close> or \<^verbatim>\<open>Load\<close>,
  whatever it returns, the field holds the value it had before. Nothing is assumed about
  the field's tag or about the sources.
\<close>

theorem unexported_field_untouched:
  assumes q: "deref st q = Some (VStruct fs)" and i: "i < length fs"
    and priv: "PkgPath (fst (fs ! i)) \<noteq> []"
  shows "(\<forall>d\<in>set (parseStruct [] st). \<not> prefix (q @ [i]) (Value d)) \<and>
    (LoadFile P sys filename (Some (VPtr (Some st))) = (e, to') \<longrightarrow>
       target_field to' (q @ [i]) = Some (snd (fs ! i))) \<and>
    (Load P sys (Some (VPtr (Some st))) = (e2, to2) \<longrightarrow>
       target_field to2 (q @ [i]) = Some (snd (fs ! i)))"
proof -
  have apart: "\<not> prefix (q @ [i]) (Value d) \<and> \<not> prefix (Value d) (q @ [i])"
    if "d \<in> set (parseStruct [] st)" for d
    using parseStruct_skips_unexported[OF q i priv that] .
  then have H: "\<forall>d\<in>set (parseStruct [] st).
      prefix (Value d) (q @ [i]) \<or> prefix (q @ [i]) (Value d) \<longrightarrow> HasPrefix (Name d) ''#''"
    by simp
  have old: "deref st (q @ [i]) = Some (snd (fs ! i))"
    using q i by (simp add: deref_append)
  show ?thesis
    using apart LoadFile_frame[OF _ H] Load_frame[OF _ H] old by simp
qed

theorem unexported_field_untouched_witness:
  "deref visibility_cfg [] = Some visibility_cfg \<and>
   PkgPath (fst (struct_fields visibility_cfg ! 2)) = ''envcfg'' \<and>
   source_vars test_environ ''FLOAT_FIELD'' = Some ''16.5'' \<and>
   parseStruct [] visibility_cfg = [\<lparr>Name = ''STRING_FIELD'', Value = [3]\<rparr>] \<and>
   fst (LoadFile platform64 (no_file_os test_environ) ''.env'' (Some (VPtr (Some visibility_cfg)))) = None \<and>
   target_field (snd (LoadFile platform64 (no_file_os test_environ) ''.env''
      (Some (VPtr (Some visibility_cfg))))) [2] = Some (VFloat T_float32 ()) \<and>
   target_field (snd (LoadFile platform64 (no_file_os test_environ) ''.env''
      (Some (VPtr (Some visibility_cfg))))) [3] = Some (VString ''32'')"
proof -
  let ?fs = "struct_fields visibility_cfg"
  let ?r = "LoadFile platform64 (no_file_os test_environ) ''.env'' (Some (VPtr (Some visibility_cfg)))"
  have h1: "deref visibility_cfg [] = Some (VStruct ?fs)" by code_simp
  have h2: "2 < length ?fs" by code_simp
  have h3: "PkgPath (fst (?fs ! 2)) \<noteq> []" by code_simp
  have r: "?r = (fst ?r, snd ?r)" by simp
  note c = unexported_field_untouched[OF h1 h2 h3, of platform64 "no_file_os test_environ"
      "''.env''" "fst ?r" "snd ?r"]
  have v: "snd (?fs ! 2) = VFloat T_float32 ()" by code_simp
  have a: "deref visibility_cfg [] = Some visibility_cfg" by simp
  have b: "PkgPath (fst (?fs ! 2)) = ''envcfg''" by code_simp
  have k: "source_vars test_environ ''FLOAT_FIELD'' = Some ''16.5''" by code_simp
  have p: "parseStruct [] visibility_cfg = [\<lparr>Name = ''STRING_FIELD'', Value = [3]\<rparr>]" by code_simp
  have e: "fst ?r = None" by code_simp
  have s: "target_field (snd ?r) [3] = Some (VString ''32'')" by code_simp
  from c r v have "target_field (snd ?r) [2] = Some (VFloat T_float32 ())" by simp
  with a b k p e s show ?thesis by simp
qed

section \<open>Invalid targets\<close>

text \<open>
  Claim C7, as the code has it. For an argument that is not a non-nil pointer to a struct,
  \<^verbatim>\<open>LoadFile\<close> returns the target error and the argument as it was. \<^verbatim>\<open>Load\<close> does
  the same when \<^verbatim>\<open>os.Getwd\<close> succeeds; when it fails, \<^verbatim>\<open>Load\<close> returns that
  failure before it looks at the argument, which it leaves as it was.
\<close>

theorem invalid_target_rejected:
  assumes "\<nexists>fs. to = Some (VPtr (Some (VStruct fs)))"
  shows "LoadFile P sys filename to = (Some TargetError, to) \<and>
    (case Getwd sys of
       Inl en \<Rightarrow> Load P sys to = (Some (OSError ''getwd'' en), to)
     | Inr dir \<Rightarrow> Load P sys to = (Some TargetError, to))"
  using LoadFile_invalid[OF assms] by (cases "Getwd sys") (simp_all add: Load_def)

definition no_cwd_os :: os where
  "no_cwd_os =
     \<lparr>Open = (\<lambda>_. Inl ENOENT), Stat = (\<lambda>_. Some ENOENT), Environ = [], Getwd = Inl ENOENT\<rparr>"

theorem invalid_target_rejected_witness:
  "LoadFile platform64 (file_os [''INT_FIELD=4''] test_environ) ''.env'' (Some example_cfg) =
     (Some TargetError, Some example_cfg) \<and>
   Load platform64 (file_os [''INT_FIELD=4''] test_environ) (Some (VPtr (None :: unit rvalue option))) =
     (Some TargetError, Some (VPtr None)) \<and>
   Load platform64 no_cwd_os (Some (VPtr (Some (VInt T_int 3 :: unit rvalue)))) =
     (Some (OSError ''getwd'' ENOENT), Some (VPtr (Some (VInt T_int 3))))"
proof -
  let ?sys = "file_os [''INT_FIELD=4''] test_environ"
  have h1: "\<nexists>fs. Some example_cfg = Some (VPtr (Some (VStruct fs)))"
    by (simp add: example_cfg_def)
  have h2: "\<nexists>fs. Some (VPtr (None :: unit rvalue option)) = Some (VPtr (Some (VStruct fs)))"
    by simp
  have h3: "\<nexists>fs. Some (VPtr (Some (VInt T_int 3 :: unit rvalue))) = Some (VPtr (Some (VStruct fs)))"
    by simp
  have g: "Getwd ?sys = Inr ''/app''" by (simp add: file_os_def)
  have g3: "Getwd no_cwd_os = Inl ENOENT" by (simp add: no_cwd_os_def)
  from invalid_target_rejected[OF h1, of platform64 ?sys "''.env''"]
  have c1: "LoadFile platform64 ?sys ''.env'' (Some example_cfg) = (Some TargetError, Some example_cfg)"
    by simp
  from invalid_target_rejected[OF h2, of platform64 ?sys "''.env''"] g
  have c2: "Load platform64 ?sys (Some (VPtr (None :: unit rvalue option))) =
     (Some TargetError, Some (VPtr None))"
    by simp
  from invalid_target_rejected[OF h3, of platform64 no_cwd_os "''.env''"] g3
  have c3: "Load platform64 no_cwd_os (Some (VPtr (Some (VInt T_int 3 :: unit rvalue)))) =
     (Some (OSError ''getwd'' ENOENT), Some (VPtr (Some (VInt T_int 3))))"
    by simp
  from c1 c2 c3 show ?thesis by simp
qed

text \<open>
  Claim C7 as stated fails for \<^verbatim>\<open>Load\<close>: with no working directory, \<^verbatim>\<open>Load(nil)\<close>
  returns the error of \<^verbatim>\<open>os.Getwd\<close>, not the target error.
\<close>

theorem Load_getwd_counterexample:
  "Load platform64 no_cwd_os (None :: unit rvalue option) = (Some (OSError ''getwd'' ENOENT), None) \<and>
   OSError ''getwd'' ENOENT \<noteq> TargetError"
  by (simp add: Load_def no_cwd_os_def)

end
